theory Spec2Isabelle
  imports Main "HOL-Library.Word"
begin

section \<open>SimpleVector: a shallow embedding of simple\_vector.h\<close>

text \<open>
  The container of \<^verbatim>\<open>simple_vector.h\<close> is embedded function by function.
  \<^item> The members \<^verbatim>\<open>storage_\<close>, \<^verbatim>\<open>size_\<close> and \<^verbatim>\<open>capacity_\<close> are the fields
    \<open>m_storage\<close>, \<open>m_size\<close> and \<open>m_capacity\<close>.
  \<^item> \<^verbatim>\<open>size_t\<close> is taken to be 64 bits wide: \<open>+\<close>, \<open>-\<close> and \<open>*\<close> on \<open>64 word\<close> wrap
    around as the unsigned arithmetic of the source does.
  \<^item> The block owned by an \<^verbatim>\<open>ArrayPtr\<close> is the list of its slots; the null pointer is
    the empty list. Each vector owns its block exclusively, so blocks are values.
  \<^item> An iterator is the offset of its slot from \<^verbatim>\<open>begin()\<close>, a reference is the slot
    number in the block.
  \<^item> \<^verbatim>\<open>Type{}\<close>, the value-initialised element, is written \<open>0\<close> (class \<open>zero\<close>:
    a type with one designated value and no law about it).
  \<^item> Moving an element assigns its value to the target slot and leaves the source
    slot as it was, as the move of an arithmetic type does. A slot that was moved from
    is read again only when the value given to \<^verbatim>\<open>Insert\<close> refers to it.
  \<^item> A throw is \<open>Inl\<close> of an \<open>error\<close>; an access outside the allocated block, which the
    source does not check, is \<open>Inl Undefined\<close>.
\<close>

type_synonym size_t = "64 word"

datatype error = OutOfRange | AllocError | Undefined

subsection \<open>The raw buffer owner\<close>

type_synonym 'a ArrayPtr = "'a list"

text \<open>
  Modelled from the spec: \<^verbatim>\<open>array_ptr.h\<close> is not among the sources. The spec calls it a
  type that exclusively owns a single contiguously allocated block of N
  default-constructed elements, with raw pointer access and a no-throw swap, holding no
  allocation for N = 0, and says that an allocation failure is propagated as an
  allocation error. A request fails when its byte size cannot be represented: every
  element takes at least one byte and a block is at most \<^verbatim>\<open>PTRDIFF_MAX\<close> bytes, so
  no block has more than \<open>max_elems\<close> slots. Below that bound memory is taken to suffice.
\<close>

definition max_elems :: size_t where
  "max_elems = 0x7FFFFFFFFFFFFFFF"

definition ArrayPtr_new :: "size_t \<Rightarrow> error + ('a::zero) ArrayPtr" where
  "ArrayPtr_new n =
     (if n > max_elems then Inl AllocError else Inr (replicate (unat n) 0))"

text \<open>
  Modelled from the spec: the move constructor of \<^verbatim>\<open>ArrayPtr\<close> (exclusive ownership,
  move-only transfer): the new owner takes the block, the old one keeps the null pointer.
  The result is (new owner, old owner).
\<close>

definition ArrayPtr_move :: "'a ArrayPtr \<Rightarrow> 'a ArrayPtr \<times> 'a ArrayPtr" where
  "ArrayPtr_move other = (other, [])"

text \<open>Modelled from the spec: the no-throw swap of two owners.\<close>

definition ArrayPtr_swap :: "'a ArrayPtr \<Rightarrow> 'a ArrayPtr \<Rightarrow> 'a ArrayPtr \<times> 'a ArrayPtr" where
  "ArrayPtr_swap a b = (b, a)"

subsection \<open>The standard algorithms the container calls\<close>

text \<open>
  \<^verbatim>\<open>std::move(first, last, d_first)\<close> between two blocks: slot by slot, front to
  back. Ranges are given by slot numbers. The callers below pass \<open>first \<le> last\<close> and
  ranges inside the blocks; they answer \<open>Undefined\<close> otherwise.
\<close>

function std_move :: "'a list \<Rightarrow> nat \<Rightarrow> nat \<Rightarrow> 'a list \<Rightarrow> nat \<Rightarrow> 'a list" where
  "std_move src first lst dst d_first =
     (if first < lst
      then std_move src (Suc first) lst (dst[d_first := src ! first]) (Suc d_first)
      else dst)"
  by pat_completeness auto
termination
  by (relation "measure (\<lambda>(src, first, lst, dst, d_first). lst - first)") auto

text \<open>\<^verbatim>\<open>std::copy\<close> does the same with copy assignment.\<close>

definition std_copy :: "'a list \<Rightarrow> nat \<Rightarrow> nat \<Rightarrow> 'a list \<Rightarrow> nat \<Rightarrow> 'a list" where
  "std_copy src first lst dst d_first = std_move src first lst dst d_first"

text \<open>\<^verbatim>\<open>std::move(first, last, d_first)\<close> inside one block (\<^verbatim>\<open>Erase\<close>): every read
  sees the writes made before it.\<close>

function move_within :: "'a list \<Rightarrow> nat \<Rightarrow> nat \<Rightarrow> nat \<Rightarrow> 'a list" where
  "move_within buf first lst d_first =
     (if first < lst
      then move_within (buf[d_first := buf ! first]) (Suc first) lst (Suc d_first)
      else buf)"
  by pat_completeness auto
termination
  by (relation "measure (\<lambda>(buf, first, lst, d_first). lst - first)") auto

text \<open>\<^verbatim>\<open>std::move_backward(first, last, d_last)\<close> inside one block (\<^verbatim>\<open>Insert\<close>):
  back to front, \<^verbatim>\<open>*(--d_last) = std::move(*(--last))\<close>.\<close>

function move_backward_within :: "'a list \<Rightarrow> nat \<Rightarrow> nat \<Rightarrow> nat \<Rightarrow> 'a list" where
  "move_backward_within buf first lst d_last =
     (if first < lst
      then move_backward_within (buf[d_last - 1 := buf ! (lst - 1)]) first (lst - 1) (d_last - 1)
      else buf)"
  by pat_completeness auto
termination
  by (relation "measure (\<lambda>(buf, first, lst, d_last). lst - first)") auto

function std_fill :: "'a list \<Rightarrow> nat \<Rightarrow> nat \<Rightarrow> 'a \<Rightarrow> 'a list" where
  "std_fill buf first lst v =
     (if first < lst then std_fill (buf[first := v]) (Suc first) lst v else buf)"
  by pat_completeness auto
termination
  by (relation "measure (\<lambda>(buf, first, lst, v). lst - first)") auto

subsection \<open>The container\<close>

record 'a SimpleVector =
  m_storage :: "'a ArrayPtr"
  m_size :: size_t
  m_capacity :: size_t

text \<open>The live elements: the slots \<open>[0, size)\<close> of the block.\<close>

definition elements :: "'a SimpleVector \<Rightarrow> 'a list" where
  "elements v = take (unat (m_size v)) (m_storage v)"

text \<open>The invariant of the data model, \<open>0 \<le> size \<le> capacity\<close>.\<close>

definition size_le_capacity :: "'a SimpleVector \<Rightarrow> bool" where
  "size_le_capacity v = (m_size v \<le> m_capacity v)"

text \<open>A well-formed vector: the invariant holds and the block has \<open>capacity\<close> slots.\<close>

definition valid :: "'a SimpleVector \<Rightarrow> bool" where
  "valid v =
     (m_size v \<le> m_capacity v \<and> length (m_storage v) = unat (m_capacity v) \<and>
      m_capacity v \<le> max_elems)"

text \<open>The private helper: \<^verbatim>\<open>for (it = first; it != last; it++) *it = Type{}\<close>. Its
  callers below pass \<open>first \<le> last\<close> inside the block.\<close>

function FillWithDefault :: "('a::zero) list \<Rightarrow> nat \<Rightarrow> nat \<Rightarrow> 'a list" where
  "FillWithDefault buf first lst =
     (if first < lst then FillWithDefault (buf[first := 0]) (Suc first) lst else buf)"
  by pat_completeness auto
termination
  by (relation "measure (\<lambda>(buf, first, lst). lst - first)") auto

subsubsection \<open>The reservation request\<close>

text \<open>The class \<^verbatim>\<open>ReserveProxyObj\<close>; its one member, \<^verbatim>\<open>value\<close>, is the field
  \<open>proxy_value\<close>.\<close>

record ReserveProxyObj =
  proxy_value :: size_t

definition GetValue :: "ReserveProxyObj \<Rightarrow> size_t" where
  "GetValue p = proxy_value p"

text \<open>The free function \<^verbatim>\<open>Reserve(capacity_to_reserve)\<close>, which builds the request.\<close>

definition Reserve_request :: "size_t \<Rightarrow> ReserveProxyObj" where
  "Reserve_request capacity_to_reserve = \<lparr>proxy_value = capacity_to_reserve\<rparr>"

subsubsection \<open>Capacity\<close>

text \<open>The member \<^verbatim>\<open>Reserve(new_capacity)\<close>.\<close>

definition Reserve :: "size_t \<Rightarrow> ('a::zero) SimpleVector \<Rightarrow> error + 'a SimpleVector" where
  "Reserve new_capacity v =
     (if new_capacity > m_capacity v then
        (case ArrayPtr_new new_capacity of
           Inl e \<Rightarrow> Inl e
         | Inr tmp \<Rightarrow>
             if unat (m_size v) \<le> length (m_storage v) \<and> unat (m_size v) \<le> length tmp
             then Inr \<lparr>m_storage = std_move (m_storage v) 0 (unat (m_size v)) tmp 0,
                       m_size = m_size v, m_capacity = new_capacity\<rparr>
             else Inl Undefined)
      else Inr v)"

text \<open>
  The loop of \<^verbatim>\<open>Resize\<close>: \<^verbatim>\<open>while (new_size > new_capacity) new_capacity *= 2;\<close>.
  The multiplication wraps, so the loop need not end: not returning is \<open>None\<close>.
\<close>

partial_function (option) grow_capacity :: "size_t \<Rightarrow> size_t \<Rightarrow> size_t option" where
  "grow_capacity new_size new_capacity =
     (if new_size > new_capacity then grow_capacity new_size (new_capacity * 2)
      else Some new_capacity)"

definition Resize :: "size_t \<Rightarrow> ('a::zero) SimpleVector \<Rightarrow> (error + 'a SimpleVector) option" where
  "Resize new_size v =
     (if new_size > m_capacity v then
        (case grow_capacity new_size (if m_capacity v = 0 then 1 else m_capacity v) of
           None \<Rightarrow> None
         | Some new_capacity \<Rightarrow>
             Some (case ArrayPtr_new new_capacity of
                     Inl e \<Rightarrow> Inl e
                   | Inr tmp \<Rightarrow>
                       if unat (m_size v) \<le> length (m_storage v) \<and> unat (m_size v) \<le> length tmp
                       then Inr \<lparr>m_storage =
                                   FillWithDefault
                                     (std_move (m_storage v) 0 (unat (m_size v)) tmp 0)
                                     (unat (m_size v)) (unat new_capacity),
                                 m_size = new_size, m_capacity = new_capacity\<rparr>
                       else Inl Undefined))
      else if new_size > m_size v then
        (if unat new_size \<le> length (m_storage v)
         then Some (Inr (v\<lparr>m_storage :=
                             FillWithDefault (m_storage v) (unat (m_size v)) (unat new_size),
                           m_size := new_size\<rparr>))
         else Some (Inl Undefined))
      else Some (Inr (v\<lparr>m_size := new_size\<rparr>)))"

definition Clear :: "'a SimpleVector \<Rightarrow> 'a SimpleVector" where
  "Clear v = v\<lparr>m_size := 0\<rparr>"

subsubsection \<open>Constructors\<close>

definition SimpleVector_default :: "'a SimpleVector" where
  "SimpleVector_default = \<lparr>m_storage = [], m_size = 0, m_capacity = 0\<rparr>"

text \<open>\<^verbatim>\<open>SimpleVector(size_t size, const Type& value)\<close>.\<close>

definition SimpleVector_fill :: "size_t \<Rightarrow> ('a::zero) \<Rightarrow> error + 'a SimpleVector" where
  "SimpleVector_fill n x =
     (case ArrayPtr_new n of
        Inl e \<Rightarrow> Inl e
      | Inr st \<Rightarrow> Inr \<lparr>m_storage = std_fill st 0 (unat n) x, m_size = n, m_capacity = n\<rparr>)"

text \<open>\<^verbatim>\<open>SimpleVector(size_t size)\<close> delegates with \<^verbatim>\<open>Type{}\<close>.\<close>

definition SimpleVector_sized :: "size_t \<Rightarrow> error + ('a::zero) SimpleVector" where
  "SimpleVector_sized n = SimpleVector_fill n 0"

text \<open>\<^verbatim>\<open>SimpleVector(std::initializer_list<Type> init)\<close>; \<^verbatim>\<open>init.size()\<close> is a
  \<^verbatim>\<open>size_t\<close>, so an initializer list has fewer than \<open>2 ^ 64\<close> elements.\<close>

definition SimpleVector_init :: "('a::zero) list \<Rightarrow> error + 'a SimpleVector" where
  "SimpleVector_init init =
     (case ArrayPtr_new (of_nat (length init)) of
        Inl e \<Rightarrow> Inl e
      | Inr st \<Rightarrow> Inr \<lparr>m_storage = std_copy init 0 (length init) st 0,
                      m_size = of_nat (length init), m_capacity = of_nat (length init)\<rparr>)"

text \<open>
  \<^verbatim>\<open>SimpleVector(ReserveProxyObj capacity_to_reserve)\<close>. The members take their
  default initialisers; the body calls \<^verbatim>\<open>Reserve(capacity_to_reserve.GetValue())\<close>.
  In the body of a member function an unqualified name is looked up in the class first,
  where the member \<^verbatim>\<open>Reserve\<close> hides the free function of the same name: the call is
  the member's.
\<close>

definition SimpleVector_reserved :: "ReserveProxyObj \<Rightarrow> error + ('a::zero) SimpleVector" where
  "SimpleVector_reserved capacity_to_reserve =
     Reserve (GetValue capacity_to_reserve) SimpleVector_default"

text \<open>The copy constructor; \<open>other\<close> is a const reference.\<close>

definition SimpleVector_copy :: "('a::zero) SimpleVector \<Rightarrow> error + 'a SimpleVector" where
  "SimpleVector_copy other =
     (case ArrayPtr_new (m_size other) of
        Inl e \<Rightarrow> Inl e
      | Inr st \<Rightarrow>
          if unat (m_size other) \<le> length (m_storage other)
          then Inr \<lparr>m_storage = std_copy (m_storage other) 0 (unat (m_size other)) st 0,
                    m_size = m_size other, m_capacity = m_size other\<rparr>
          else Inl Undefined)"

text \<open>\<^verbatim>\<open>std::exchange(other.size_, 0)\<close>: the old value, and the object with the new one.\<close>

definition exchange_size :: "'a SimpleVector \<Rightarrow> size_t \<Rightarrow> size_t \<times> 'a SimpleVector" where
  "exchange_size obj new_value = (m_size obj, obj\<lparr>m_size := new_value\<rparr>)"

text \<open>
  The move constructor. The members are initialised in the order of their declaration:
  \<^verbatim>\<open>storage_(std::move(other.storage_))\<close>, \<^verbatim>\<open>size_(std::exchange(other.size_, 0))\<close>,
  \<^verbatim>\<open>capacity_(std::exchange(other.size_, 0))\<close>. The result is (the new vector, \<open>other\<close>
  afterwards).
\<close>

definition SimpleVector_move :: "'a SimpleVector \<Rightarrow> 'a SimpleVector \<times> 'a SimpleVector" where
  "SimpleVector_move other =
     (let (st, other_st) = ArrayPtr_move (m_storage other);
          other1 = other\<lparr>m_storage := other_st\<rparr>;
          (sz, other2) = exchange_size other1 0;
          (cp, other3) = exchange_size other2 0
      in (\<lparr>m_storage = st, m_size = sz, m_capacity = cp\<rparr>, other3))"

subsubsection \<open>Element access\<close>

text \<open>\<^verbatim>\<open>operator[]\<close>: the reference to slot \<open>index\<close>, unchecked.\<close>

definition subscript :: "'a SimpleVector \<Rightarrow> size_t \<Rightarrow> nat" where
  "subscript v index = unat index"

text \<open>
  \<^verbatim>\<open>At\<close>, mutable: the outcome and the vector afterwards. The const overload has the
  same body and cannot write.
\<close>

definition At :: "'a SimpleVector \<Rightarrow> size_t \<Rightarrow> (error + nat) \<times> 'a SimpleVector" where
  "At v index =
     (if index \<ge> m_size v then (Inl OutOfRange, v) else (Inr (subscript v index), v))"

definition At_const :: "'a SimpleVector \<Rightarrow> size_t \<Rightarrow> error + nat" where
  "At_const v index =
     (if index \<ge> m_size v then Inl OutOfRange else Inr (subscript v index))"

text \<open>Reading through a reference.\<close>

definition deref :: "'a SimpleVector \<Rightarrow> nat \<Rightarrow> 'a" where
  "deref v r = m_storage v ! r"

subsubsection \<open>Insert, Erase, PushBack, PopBack, swap\<close>

text \<open>
  The parameter \<^verbatim>\<open>value\<close> of \<^verbatim>\<open>Insert\<close> and \<^verbatim>\<open>PushBack\<close> is a reference
  (\<^verbatim>\<open>const Type&\<close> or \<^verbatim>\<open>Type&&\<close>), read when the statement that uses it runs. It refers
  either to an object outside the block of the vector, given by the value it holds, or
  to a slot of the block, as in \<^verbatim>\<open>v.Insert(v.begin(), v[2])\<close>.
\<close>

datatype 'a value_ref = Outside 'a | Own_slot nat

text \<open>Reading the reference while the block of the vector is \<open>buf\<close>.\<close>

definition read_ref :: "'a list \<Rightarrow> 'a value_ref \<Rightarrow> 'a" where
  "read_ref buf r = (case r of Outside x \<Rightarrow> x | Own_slot k \<Rightarrow> buf ! k)"

text \<open>The reference refers to an object: a slot it names exists in the block.\<close>

definition ref_in_block :: "'a list \<Rightarrow> 'a value_ref \<Rightarrow> bool" where
  "ref_in_block buf r = (case r of Outside x \<Rightarrow> True | Own_slot k \<Rightarrow> k < length buf)"

text \<open>
  \<^verbatim>\<open>Insert(pos, const Type& value)\<close>, with \<open>distance = pos - begin()\<close>. The result is the
  vector afterwards and the returned iterator. When the vector is full,
  \<^verbatim>\<open>std::exchange(tmp[distance], value)\<close> reads \<^verbatim>\<open>value\<close> after the elements before the
  offset were moved out of the old block, which \<^verbatim>\<open>storage_\<close> still owns; with spare
  capacity, \<^verbatim>\<open>std::exchange(storage_[distance], value)\<close> reads it after
  \<^verbatim>\<open>std::move_backward\<close> has shifted the block.
\<close>

definition Insert :: "size_t \<Rightarrow> ('a::zero) value_ref \<Rightarrow> 'a SimpleVector \<Rightarrow> error + 'a SimpleVector \<times> size_t" where
  "Insert distance val v =
     (if m_size v = m_capacity v then
        (let new_capacity = (if m_capacity v = 0 then 1 else m_capacity v * 2) in
         case ArrayPtr_new new_capacity of
           Inl e \<Rightarrow> Inl e
         | Inr tmp \<Rightarrow>
             if distance \<le> m_size v \<and> unat (m_size v) \<le> length (m_storage v) \<and>
                unat (m_size v) + 1 \<le> length tmp \<and> ref_in_block (m_storage v) val
             then
               (let tmp1 = std_move (m_storage v) 0 (unat distance) tmp 0;
                    tmp2 = tmp1[unat distance := read_ref (m_storage v) val];
                    tmp3 = std_move (m_storage v) (unat distance) (unat (m_size v)) tmp2
                             (unat distance + 1)
                in Inr (\<lparr>m_storage = tmp3, m_size = m_size v + 1, m_capacity = new_capacity\<rparr>,
                        distance))
             else Inl Undefined)
      else
        (if distance \<le> m_size v \<and> unat (m_size v) + 1 \<le> length (m_storage v) \<and>
            ref_in_block (m_storage v) val
         then
           (let s1 = move_backward_within (m_storage v) (unat distance) (unat (m_size v))
                       (unat (m_size v) + 1);
                s2 = s1[unat distance := read_ref s1 val]
            in Inr (v\<lparr>m_storage := s2, m_size := m_size v + 1\<rparr>, distance))
         else Inl Undefined))"

text \<open>\<^verbatim>\<open>Insert(pos, Type&& value)\<close>: the same statements, with \<^verbatim>\<open>std::move(value)\<close>
  read at the same two places.\<close>

definition Insert_rvalue :: "size_t \<Rightarrow> ('a::zero) value_ref \<Rightarrow> 'a SimpleVector \<Rightarrow> error + 'a SimpleVector \<times> size_t" where
  "Insert_rvalue distance val v =
     (if m_size v = m_capacity v then
        (let new_capacity = (if m_capacity v = 0 then 1 else m_capacity v * 2) in
         case ArrayPtr_new new_capacity of
           Inl e \<Rightarrow> Inl e
         | Inr tmp \<Rightarrow>
             if distance \<le> m_size v \<and> unat (m_size v) \<le> length (m_storage v) \<and>
                unat (m_size v) + 1 \<le> length tmp \<and> ref_in_block (m_storage v) val
             then
               (let tmp1 = std_move (m_storage v) 0 (unat distance) tmp 0;
                    tmp2 = tmp1[unat distance := read_ref (m_storage v) val];
                    tmp3 = std_move (m_storage v) (unat distance) (unat (m_size v)) tmp2
                             (unat distance + 1)
                in Inr (\<lparr>m_storage = tmp3, m_size = m_size v + 1, m_capacity = new_capacity\<rparr>,
                        distance))
             else Inl Undefined)
      else
        (if distance \<le> m_size v \<and> unat (m_size v) + 1 \<le> length (m_storage v) \<and>
            ref_in_block (m_storage v) val
         then
           (let s1 = move_backward_within (m_storage v) (unat distance) (unat (m_size v))
                       (unat (m_size v) + 1);
                s2 = s1[unat distance := read_ref s1 val]
            in Inr (v\<lparr>m_storage := s2, m_size := m_size v + 1\<rparr>, distance))
         else Inl Undefined))"

text \<open>\<^verbatim>\<open>end()\<close> as an offset.\<close>

definition end_offset :: "'a SimpleVector \<Rightarrow> size_t" where
  "end_offset v = m_size v"

text \<open>\<^verbatim>\<open>PushBack(const Type& item)\<close> and \<^verbatim>\<open>PushBack(Type&& item)\<close> pass their reference
  on.\<close>

definition PushBack :: "('a::zero) value_ref \<Rightarrow> 'a SimpleVector \<Rightarrow> error + 'a SimpleVector" where
  "PushBack item v =
     (case Insert (end_offset v) item v of Inl e \<Rightarrow> Inl e | Inr (v', it) \<Rightarrow> Inr v')"

definition PushBack_rvalue :: "('a::zero) value_ref \<Rightarrow> 'a SimpleVector \<Rightarrow> error + 'a SimpleVector" where
  "PushBack_rvalue item v =
     (case Insert_rvalue (end_offset v) item v of Inl e \<Rightarrow> Inl e | Inr (v', it) \<Rightarrow> Inr v')"

text \<open>\<^verbatim>\<open>PopBack\<close>: \<^verbatim>\<open>--size_\<close>, unchecked.\<close>

definition PopBack :: "'a SimpleVector \<Rightarrow> 'a SimpleVector" where
  "PopBack v = v\<lparr>m_size := m_size v - 1\<rparr>"

text \<open>\<^verbatim>\<open>Erase(pos)\<close>: the range \<open>[distance + 1, size)\<close> moves one slot to the left.\<close>

definition Erase :: "size_t \<Rightarrow> 'a SimpleVector \<Rightarrow> error + 'a SimpleVector \<times> size_t" where
  "Erase distance v =
     (if unat distance + 1 \<le> unat (m_size v) \<and> unat (m_size v) \<le> length (m_storage v)
      then Inr (v\<lparr>m_storage :=
                    move_within (m_storage v) (unat distance + 1) (unat (m_size v)) (unat distance),
                  m_size := m_size v - 1\<rparr>, distance)
      else Inl Undefined)"

text \<open>\<^verbatim>\<open>swap(other)\<close>: (this vector, \<open>other\<close>) afterwards.\<close>

definition swap_vectors :: "'a SimpleVector \<Rightarrow> 'a SimpleVector \<Rightarrow> 'a SimpleVector \<times> 'a SimpleVector" where
  "swap_vectors this other =
     (let (st, other_st) = ArrayPtr_swap (m_storage this) (m_storage other)
      in (\<lparr>m_storage = st, m_size = m_size other, m_capacity = m_capacity other\<rparr>,
          \<lparr>m_storage = other_st, m_size = m_size this, m_capacity = m_capacity this\<rparr>))"

subsubsection \<open>Assignment\<close>

text \<open>
  The assignment operators compare addresses (\<^verbatim>\<open>this != &rhs\<close>), so they are modelled
  over a store of vectors indexed by address. The temporary is destroyed at the end of
  the branch: only the two named objects remain in the store.
\<close>

type_synonym 'a store = "nat \<Rightarrow> 'a SimpleVector"

definition copy_assign :: "nat \<Rightarrow> nat \<Rightarrow> ('a::zero) store \<Rightarrow> error + 'a store" where
  "copy_assign this rhs s =
     (if this \<noteq> rhs then
        (case SimpleVector_copy (s rhs) of
           Inl e \<Rightarrow> Inl e
         | Inr tmp \<Rightarrow> (let (this', tmp') = swap_vectors (s this) tmp in Inr (s(this := this'))))
      else Inr s)"

definition move_assign :: "nat \<Rightarrow> nat \<Rightarrow> 'a store \<Rightarrow> 'a store" where
  "move_assign this rhs s =
     (if this \<noteq> rhs then
        (let (tmp, rhs') = SimpleVector_move (s rhs);
             s1 = s(rhs := rhs');
             (this', tmp') = swap_vectors (s1 this) tmp
         in s1(this := this'))
      else s)"

section \<open>The loops in closed form\<close>

text \<open>
  Each loop is characterised slot by slot. The recursive equations are taken out of the
  simplifier and unfolded one step at a time.
\<close>

declare std_move.simps [simp del] move_within.simps [simp del]
  move_backward_within.simps [simp del] std_fill.simps [simp del] FillWithDefault.simps [simp del]

lemma length_std_move: "length (std_move src first lst dst d_first) = length dst"
  by (induction src first lst dst d_first rule: std_move.induct)
     (subst std_move.simps, simp)

lemma nth_std_move:
  "i < length dst \<Longrightarrow>
   std_move src first lst dst d_first ! i =
     (if d_first \<le> i \<and> i < d_first + (lst - first) then src ! (first + (i - d_first)) else dst ! i)"
proof (induction src first lst dst d_first rule: std_move.induct)
  case (1 src first lst dst d_first)
  show ?case
  proof (cases "first < lst")
    case True
    let ?d = "dst[d_first := src ! first]"
    have step: "std_move src first lst dst d_first ! i =
          std_move src (Suc first) lst ?d (Suc d_first) ! i"
      using True by (subst std_move.simps) simp
    have ih: "std_move src (Suc first) lst ?d (Suc d_first) ! i =
               (if Suc d_first \<le> i \<and> i < Suc d_first + (lst - Suc first)
                then src ! (Suc first + (i - Suc d_first))
                else ?d ! i)"
      using 1 True by simp
    consider "i < d_first" | "i = d_first" | "Suc d_first \<le> i" by arith
    then show ?thesis
    proof cases
      case 1
      have "\<not> (Suc d_first \<le> i \<and> i < Suc d_first + (lst - Suc first))"
           "\<not> (d_first \<le> i \<and> i < d_first + (lst - first))" "?d ! i = dst ! i"
        using 1 by simp_all
      then show ?thesis by (simp only: step ih if_False)
    next
      case 2
      have "\<not> (Suc d_first \<le> i \<and> i < Suc d_first + (lst - Suc first))"
           "d_first \<le> i \<and> i < d_first + (lst - first)" "?d ! i = src ! first"
           "first + (i - d_first) = first"
        using 2 True "1.prems" by simp_all
      then show ?thesis by (simp only: step ih if_False if_True simp_thms)
    next
      case 3
      have "(Suc d_first \<le> i \<and> i < Suc d_first + (lst - Suc first)) =
            (d_first \<le> i \<and> i < d_first + (lst - first))"
        using 3 True by arith
      moreover have "Suc first + (i - Suc d_first) = first + (i - d_first)"
        using 3 by arith
      moreover have "?d ! i = dst ! i" using 3 by simp
      ultimately show ?thesis by (simp only: step ih)
    qed
  next
    case False
    then show ?thesis by (subst std_move.simps) auto
  qed
qed

lemma length_move_within: "length (move_within buf first lst d_first) = length buf"
  by (induction buf first lst d_first rule: move_within.induct)
     (subst move_within.simps, simp)

lemma nth_move_within:
  "d_first \<le> first \<Longrightarrow> i < length buf \<Longrightarrow>
   move_within buf first lst d_first ! i =
     (if d_first \<le> i \<and> i < d_first + (lst - first) then buf ! (first + (i - d_first)) else buf ! i)"
proof (induction buf first lst d_first rule: move_within.induct)
  case (1 buf first lst d_first)
  show ?case
  proof (cases "first < lst")
    case True
    let ?b = "buf[d_first := buf ! first]"
    have step: "move_within buf first lst d_first ! i =
          move_within ?b (Suc first) lst (Suc d_first) ! i"
      using True by (subst move_within.simps) simp
    have ih: "move_within ?b (Suc first) lst (Suc d_first) ! i =
               (if Suc d_first \<le> i \<and> i < Suc d_first + (lst - Suc first)
                then ?b ! (Suc first + (i - Suc d_first))
                else ?b ! i)"
      using 1 True by simp
    consider "i < d_first" | "i = d_first" | "Suc d_first \<le> i" by arith
    then show ?thesis
    proof cases
      case 1
      have "\<not> (Suc d_first \<le> i \<and> i < Suc d_first + (lst - Suc first))"
           "\<not> (d_first \<le> i \<and> i < d_first + (lst - first))" "?b ! i = buf ! i"
        using 1 by simp_all
      then show ?thesis by (simp only: step ih if_False)
    next
      case 2
      have "\<not> (Suc d_first \<le> i \<and> i < Suc d_first + (lst - Suc first))"
           "d_first \<le> i \<and> i < d_first + (lst - first)" "?b ! i = buf ! first"
           "first + (i - d_first) = first"
        using 2 True "1.prems" by simp_all
      then show ?thesis by (simp only: step ih if_False if_True simp_thms)
    next
      case 3
      have "(Suc d_first \<le> i \<and> i < Suc d_first + (lst - Suc first)) =
            (d_first \<le> i \<and> i < d_first + (lst - first))"
        using 3 True by arith
      moreover have "Suc first + (i - Suc d_first) = first + (i - d_first)"
        using 3 by arith
      moreover have "first + (i - d_first) \<noteq> d_first"
        using 3 "1.prems" by arith
      then have "?b ! (first + (i - d_first)) = buf ! (first + (i - d_first))"
        by simp
      moreover have "?b ! i = buf ! i" using 3 by simp
      ultimately show ?thesis by (simp only: step ih)
    qed
  next
    case False
    then show ?thesis by (subst move_within.simps) auto
  qed
qed

lemma length_move_backward_within:
  "length (move_backward_within buf first lst d_last) = length buf"
  by (induction buf first lst d_last rule: move_backward_within.induct)
     (subst move_backward_within.simps, simp)

lemma nth_move_backward_within:
  "lst \<le> d_last \<Longrightarrow> i < length buf \<Longrightarrow>
   move_backward_within buf first lst d_last ! i =
     (if d_last - (lst - first) \<le> i \<and> i < d_last then buf ! (i - (d_last - lst)) else buf ! i)"
proof (induction buf first lst d_last rule: move_backward_within.induct)
  case (1 buf first lst d_last)
  show ?case
  proof (cases "first < lst")
    case True
    let ?b = "buf[d_last - 1 := buf ! (lst - 1)]"
    have step: "move_backward_within buf first lst d_last ! i =
          move_backward_within ?b first (lst - 1) (d_last - 1) ! i"
      using True by (subst move_backward_within.simps) simp
    have "lst - 1 \<le> d_last - 1" using "1.prems" by arith
    then have ih: "move_backward_within ?b first (lst - 1) (d_last - 1) ! i =
               (if d_last - 1 - (lst - 1 - first) \<le> i \<and> i < d_last - 1
                then ?b ! (i - (d_last - 1 - (lst - 1)))
                else ?b ! i)"
      using "1.IH" [OF True] "1.prems" by simp
    have sh: "d_last - 1 - (lst - 1) = d_last - lst"
      using True "1.prems" by arith
    have rng: "d_last - 1 - (lst - 1 - first) = d_last - (lst - first)"
      using True "1.prems" by arith
    consider "i < d_last - 1" | "i = d_last - 1" | "d_last \<le> i" using True by arith
    then show ?thesis
    proof cases
      case 1
      have "(d_last - (lst - first) \<le> i \<and> i < d_last - 1) =
            (d_last - (lst - first) \<le> i \<and> i < d_last)" using 1 by arith
      moreover have "i - (d_last - lst) \<noteq> d_last - 1" using 1 by arith
      then have "?b ! (i - (d_last - lst)) = buf ! (i - (d_last - lst))" by simp
      moreover have "?b ! i = buf ! i"
        using 1 by simp
      ultimately show ?thesis by (simp only: step ih sh rng)
    next
      case 2
      have "\<not> (d_last - (lst - first) \<le> i \<and> i < d_last - 1)" using 2 by simp
      moreover have "d_last - (lst - first) \<le> i \<and> i < d_last"
        using 2 True "1.prems" by arith
      moreover have "i - (d_last - lst) = lst - 1"
        using 2 True "1.prems" by arith
      moreover have "?b ! i = buf ! (lst - 1)" using 2 "1.prems" by simp
      ultimately show ?thesis by (simp only: step ih sh rng if_False if_True simp_thms)
    next
      case 3
      have "\<not> (d_last - (lst - first) \<le> i \<and> i < d_last - 1)"
          "\<not> (d_last - (lst - first) \<le> i \<and> i < d_last)" using 3 by arith+
      moreover have "?b ! i = buf ! i" using 3 True "1.prems" by simp
      ultimately show ?thesis by (simp only: step ih sh rng if_False)
    qed
  next
    case False
    then show ?thesis by (subst move_backward_within.simps) simp
  qed
qed

lemma length_std_fill: "length (std_fill buf first lst v) = length buf"
  by (induction buf first lst v rule: std_fill.induct)
     (subst std_fill.simps, simp)

lemma nth_std_fill:
  "i < length buf \<Longrightarrow>
   std_fill buf first lst v ! i = (if first \<le> i \<and> i < lst then v else buf ! i)"
proof (induction buf first lst v rule: std_fill.induct)
  case (1 buf first lst v)
  show ?case
  proof (cases "first < lst")
    case True
    have step: "std_fill buf first lst v ! i = std_fill (buf[first := v]) (Suc first) lst v ! i"
      using True by (subst std_fill.simps) simp
    have ih: "std_fill (buf[first := v]) (Suc first) lst v ! i =
               (if Suc first \<le> i \<and> i < lst then v else buf[first := v] ! i)"
      using 1 True by simp
    show ?thesis unfolding step ih using True "1.prems"
      by (cases "i = first") auto
  next
    case False
    then show ?thesis by (subst std_fill.simps) auto
  qed
qed

lemma length_FillWithDefault: "length (FillWithDefault buf first lst) = length buf"
  by (induction buf first lst rule: FillWithDefault.induct)
     (subst FillWithDefault.simps, simp)

lemma nth_FillWithDefault:
  "i < length buf \<Longrightarrow>
   FillWithDefault buf first lst ! i = (if first \<le> i \<and> i < lst then 0 else buf ! i)"
proof (induction buf first lst rule: FillWithDefault.induct)
  case (1 buf first lst)
  show ?case
  proof (cases "first < lst")
    case True
    have step: "FillWithDefault buf first lst ! i = FillWithDefault (buf[first := 0]) (Suc first) lst ! i"
      using True by (subst FillWithDefault.simps) simp
    have ih: "FillWithDefault (buf[first := 0]) (Suc first) lst ! i =
               (if Suc first \<le> i \<and> i < lst then 0 else buf[first := 0] ! i)"
      using 1 True by simp
    show ?thesis unfolding step ih using True "1.prems"
      by (cases "i = first") auto
  next
    case False
    then show ?thesis by (subst FillWithDefault.simps) auto
  qed
qed

section \<open>Sizes as words\<close>

lemma unat_max_elems: "unat max_elems = 2 ^ 63 - 1"
  by (simp add: max_elems_def)

lemma le_max_elems_iff: "(c \<le> max_elems) = (unat c < 2 ^ 63)"
  unfolding word_le_nat_alt unat_max_elems by auto

lemma unat_double: "c \<le> max_elems \<Longrightarrow> unat (c * 2) = 2 * unat c"
  by (simp add: le_max_elems_iff unat_word_ariths)

lemma unat_succ: "(s::size_t) \<le> max_elems \<Longrightarrow> unat (s + 1) = unat s + 1"
  by (simp add: le_max_elems_iff unat_word_ariths)

lemma valid_size_bound: "valid v \<Longrightarrow> unat (m_size v) \<le> length (m_storage v)"
  by (simp add: valid_def word_le_nat_alt)

lemma valid_size_max: "valid v \<Longrightarrow> m_size v \<le> max_elems"
  by (auto simp: valid_def)

section \<open>What the loops leave in a block\<close>

lemma take_std_move_prefix:
  assumes "n \<le> length src" "n \<le> length dst"
  shows "take n (std_move src 0 n dst 0) = take n src"
  using assms by (intro nth_equalityI) (simp_all add: length_std_move nth_std_move)

lemma drop_std_move_prefix:
  assumes "n \<le> length dst"
  shows "drop n (std_move src 0 n dst 0) = drop n dst"
  using assms by (intro nth_equalityI) (simp_all add: length_std_move nth_std_move)

lemma insert_realloc_take:
  assumes "d \<le> n" "n \<le> length st" "n + 1 \<le> length tmp"
  shows "take (n + 1) (std_move st d n ((std_move st 0 d tmp 0)[d := x]) (d + 1)) =
         take d st @ x # take (n - d) (drop d st)"
proof (intro nth_equalityI)
  show "length (take (n + 1) (std_move st d n ((std_move st 0 d tmp 0)[d := x]) (d + 1))) =
        length (take d st @ x # take (n - d) (drop d st))"
    using assms by (simp add: length_std_move)
next
  fix i
  assume "i < length (take (n + 1) (std_move st d n ((std_move st 0 d tmp 0)[d := x]) (d + 1)))"
  then have i: "i < n + 1" "i < length tmp" using assms by (simp_all add: length_std_move)
  consider "i < d" | "i = d" | "d < i" by arith
  then show "take (n + 1) (std_move st d n ((std_move st 0 d tmp 0)[d := x]) (d + 1)) ! i =
             (take d st @ x # take (n - d) (drop d st)) ! i"
  proof cases
    case 1
    then show ?thesis using assms i
      by (simp add: length_std_move nth_std_move nth_append)
  next
    case 2
    then show ?thesis using assms i
      by (simp add: length_std_move nth_std_move nth_append)
  next
    case 3
    then have "d + (i - (d + 1)) = d + (i - d - 1)" "i - d = Suc (i - d - 1)" by arith+
    then show ?thesis using assms i 3
      by (simp add: length_std_move nth_std_move nth_append)
  qed
qed

lemma insert_realloc_drop:
  assumes "d \<le> n" "n + 1 \<le> length tmp"
  shows "drop (n + 1) (std_move st d n ((std_move st 0 d tmp 0)[d := x]) (d + 1)) =
         drop (n + 1) tmp"
  using assms by (intro nth_equalityI) (simp_all add: length_std_move nth_std_move)

lemma insert_inplace_take:
  assumes "d \<le> n" "n + 1 \<le> length st"
  shows "take (n + 1) ((move_backward_within st d n (n + 1))[d := x]) =
         take d st @ x # take (n - d) (drop d st)"
proof (intro nth_equalityI)
  show "length (take (n + 1) ((move_backward_within st d n (n + 1))[d := x])) =
        length (take d st @ x # take (n - d) (drop d st))"
    using assms by (simp add: length_move_backward_within)
next
  fix i
  assume "i < length (take (n + 1) ((move_backward_within st d n (n + 1))[d := x]))"
  then have i: "i < n + 1" "i < length st" using assms by (simp_all add: length_move_backward_within)
  have lo: "n + 1 - (n - d) = d + 1" using assms by arith
  consider "i < d" | "i = d" | "d < i" by arith
  then show "take (n + 1) ((move_backward_within st d n (n + 1))[d := x]) ! i =
             (take d st @ x # take (n - d) (drop d st)) ! i"
  proof cases
    case 1
    then show ?thesis using assms i
      by (simp add: length_move_backward_within nth_move_backward_within nth_append lo)
  next
    case 2
    then show ?thesis using assms i
      by (simp add: length_move_backward_within nth_append)
  next
    case 3
    then have "i - d = Suc (i - d - 1)" "d + (i - d - 1) = i - 1" by arith+
    then show ?thesis using assms i 3
      by (simp add: length_move_backward_within nth_move_backward_within nth_append lo)
  qed
qed

lemma insert_inplace_drop:
  assumes "d \<le> n" "n + 1 \<le> length st"
  shows "drop (n + 1) ((move_backward_within st d n (n + 1))[d := x]) = drop (n + 1) st"
  using assms
  by (intro nth_equalityI)
     (simp_all add: length_move_backward_within nth_move_backward_within)

lemma erase_take:
  assumes "d + 1 \<le> n" "n \<le> length st"
  shows "take (n - 1) (move_within st (d + 1) n d) = take d st @ take (n - 1 - d) (drop (d + 1) st)"
proof (intro nth_equalityI)
  show "length (take (n - 1) (move_within st (d + 1) n d)) =
        length (take d st @ take (n - 1 - d) (drop (d + 1) st))"
    using assms by (simp add: length_move_within)
next
  fix i
  assume "i < length (take (n - 1) (move_within st (d + 1) n d))"
  then have i: "i < n - 1" "i < length st" using assms by (simp_all add: length_move_within)
  show "take (n - 1) (move_within st (d + 1) n d) ! i =
        (take d st @ take (n - 1 - d) (drop (d + 1) st)) ! i"
  proof (cases "i < d")
    case True
    then show ?thesis using assms i
      by (simp add: nth_move_within nth_append)
  next
    case False
    then have "d + 1 + (i - d) = Suc (i)" "i < d + (n - (d + 1))" using i assms by arith+
    then show ?thesis using assms i False
      by (simp add: nth_move_within nth_append)
  qed
qed

lemma take_FillWithDefault:
  assumes "a \<le> b" "b \<le> length buf"
  shows "take b (FillWithDefault buf a b) = take a buf @ replicate (b - a) 0"
  using assms
  by (intro nth_equalityI) (auto simp add: length_FillWithDefault nth_FillWithDefault nth_append)

lemma drop_FillWithDefault:
  assumes "b \<le> length buf"
  shows "drop b (FillWithDefault buf a b) = drop b buf"
  using assms
  by (intro nth_equalityI) (auto simp add: length_FillWithDefault nth_FillWithDefault)

lemma std_fill_replicate:
  "std_fill (replicate n y) 0 n x = replicate n x"
  by (intro nth_equalityI) (auto simp add: length_std_fill nth_std_fill)

lemma std_copy_all:
  "length dst = length src \<Longrightarrow> std_copy src 0 (length src) dst 0 = src"
  unfolding std_copy_def
  by (intro nth_equalityI) (auto simp add: length_std_move nth_std_move)

section \<open>Insert and Erase on a well-formed vector\<close>

lemma Insert_rvalue_eq: "Insert_rvalue distance val v = Insert distance val v"
  by (simp add: Insert_rvalue_def Insert_def)

lemma Insert_full:
  assumes v: "valid v" and full: "m_size v = m_capacity v" and d: "distance \<le> m_size v"
    and nc: "new_capacity = (if m_capacity v = 0 then 1 else m_capacity v * 2)"
    and ok: "new_capacity \<le> max_elems"
    and ref: "ref_in_block (m_storage v) val" and x: "x = read_ref (m_storage v) val"
  shows "Insert distance val v =
           Inr (\<lparr>m_storage = take (unat distance) (elements v) @ x # drop (unat distance) (elements v)
                              @ replicate (unat new_capacity - (unat (m_size v) + 1)) 0,
                  m_size = m_size v + 1, m_capacity = new_capacity\<rparr>, distance)"
proof -
  let ?n = "unat (m_size v)" and ?d = "unat distance" and ?st = "m_storage v"
  let ?tmp = "replicate (unat new_capacity) (0::'a)"
  have n: "?n \<le> length ?st" using v by (rule valid_size_bound)
  have dn: "?d \<le> ?n" using d by (simp add: word_le_nat_alt)
  have cap: "m_capacity v \<le> max_elems" using v by (simp add: valid_def)
  have "unat new_capacity = (if m_capacity v = 0 then 1 else 2 * unat (m_capacity v))"
    using nc cap by (simp add: unat_double)
  moreover have "m_capacity v \<noteq> 0 \<Longrightarrow> 0 < unat (m_capacity v)"
    by (simp add: unat_gt_0)
  moreover have "m_capacity v = 0 \<Longrightarrow> unat (m_capacity v) = 0" by simp
  ultimately have room: "?n + 1 \<le> length ?tmp" using full by (auto split: if_splits)
  let ?r = "std_move ?st ?d ?n ((std_move ?st 0 ?d ?tmp 0)[?d := x]) (?d + 1)"
  have "?r = take (?n + 1) ?r @ drop (?n + 1) ?r" by simp
  also have "take (?n + 1) ?r = take ?d ?st @ x # take (?n - ?d) (drop ?d ?st)"
    using dn n room by (rule insert_realloc_take)
  also have "drop (?n + 1) ?r = drop (?n + 1) ?tmp"
    using dn room by (rule insert_realloc_drop)
  finally have r: "?r = take ?d (elements v) @ x # drop ?d (elements v)
                      @ replicate (unat new_capacity - (?n + 1)) 0"
    using dn by (simp add: elements_def drop_take min_def)
  have "ArrayPtr_new new_capacity = Inr ?tmp"
    using ok by (simp add: ArrayPtr_new_def)
  then show ?thesis
    using full d n room r nc [symmetric] ref x [symmetric] by (simp add: Insert_def Let_def)
qed

lemma Insert_full_fail:
  assumes full: "m_size v = m_capacity v"
    and nc: "new_capacity = (if m_capacity v = 0 then 1 else m_capacity v * 2)"
    and ok: "max_elems < new_capacity"
  shows "Insert distance val v = Inl AllocError"
  using full nc [symmetric] ok by (simp add: Insert_def Let_def ArrayPtr_new_def)

lemma Insert_spare:
  assumes v: "valid v" and spare: "m_size v \<noteq> m_capacity v" and d: "distance \<le> m_size v"
    and ref: "ref_in_block (m_storage v) val"
    and x: "x = read_ref (move_backward_within (m_storage v) (unat distance) (unat (m_size v))
                            (unat (m_size v) + 1)) val"
  shows "Insert distance val v =
           Inr (v\<lparr>m_storage := take (unat distance) (elements v) @ x # drop (unat distance) (elements v)
                              @ drop (unat (m_size v) + 1) (m_storage v),
                  m_size := m_size v + 1\<rparr>, distance)"
proof -
  let ?n = "unat (m_size v)" and ?d = "unat distance" and ?st = "m_storage v"
  have dn: "?d \<le> ?n" using d by (simp add: word_le_nat_alt)
  have "m_size v < m_capacity v" using v spare by (auto simp: valid_def)
  then have room: "?n + 1 \<le> length ?st"
    using v by (simp add: valid_def word_less_nat_alt)
  let ?r = "(move_backward_within ?st ?d ?n (?n + 1))[?d := x]"
  have "?r = take (?n + 1) ?r @ drop (?n + 1) ?r" by simp
  also have "take (?n + 1) ?r = take ?d ?st @ x # take (?n - ?d) (drop ?d ?st)"
    using dn room by (rule insert_inplace_take)
  also have "drop (?n + 1) ?r = drop (?n + 1) ?st"
    using dn room by (rule insert_inplace_drop)
  finally have r: "?r = take ?d (elements v) @ x # drop ?d (elements v) @ drop (?n + 1) ?st"
    using dn by (simp add: elements_def drop_take min_def)
  show ?thesis
    using spare d room r ref x [symmetric] by (simp add: Insert_def Let_def)
qed

lemma read_after_shift:
  assumes "d \<le> n" "n + 1 \<le> length st" "ref_in_block st val"
  shows "read_ref (move_backward_within st d n (n + 1)) val =
           (case val of Outside x \<Rightarrow> x
            | Own_slot k \<Rightarrow> if d < k \<and> k \<le> n then st ! (k - 1) else st ! k)"
proof (cases val)
  case (Outside x)
  then show ?thesis by (simp add: read_ref_def)
next
  case (Own_slot k)
  with assms(3) have k: "k < length st" by (simp add: ref_in_block_def)
  have lo: "n + 1 - (n - d) = d + 1" using assms(1) by arith
  have "move_backward_within st d n (n + 1) ! k =
          (if d + 1 \<le> k \<and> k < n + 1 then st ! (k - (n + 1 - n)) else st ! k)"
    using nth_move_backward_within [of n "n + 1" k st d] k by (simp only: lo le_add1)
  also have "\<dots> = (if d < k \<and> k \<le> n then st ! (k - 1) else st ! k)"
    by (auto simp: less_eq_Suc_le)
  finally show ?thesis using Own_slot by (simp add: read_ref_def)
qed

lemma take_inserted:
  "length e = n \<Longrightarrow> d \<le> n \<Longrightarrow> take (n + 1) (take d e @ x # drop d e @ r) = take d e @ x # drop d e"
  by (simp add: Suc_diff_le)

lemma Insert_outcome:
  assumes v: "valid v" and d: "distance \<le> m_size v" and ref: "ref_in_block (m_storage v) val"
  obtains
    (alloc_fails) "m_size v = m_capacity v"
      "max_elems < (if m_capacity v = 0 then 1 else m_capacity v * 2)"
      "Insert distance val v = Inl AllocError"
  | (inserted) v' x where "Insert distance val v = Inr (v', distance)"
      "m_size v' = m_size v + 1" "unat (m_size v') = unat (m_size v) + 1"
      "elements v' = take (unat distance) (elements v) @ x # drop (unat distance) (elements v)"
      "m_capacity v' =
         (if m_size v = m_capacity v then (if m_capacity v = 0 then 1 else m_capacity v * 2)
          else m_capacity v)"
      "valid v'"
      "x = (if m_size v = m_capacity v then read_ref (m_storage v) val
            else read_ref (move_backward_within (m_storage v) (unat distance) (unat (m_size v))
                             (unat (m_size v) + 1)) val)"
proof -
  let ?n = "unat (m_size v)" and ?d = "unat distance"
  let ?nc = "if m_capacity v = 0 then 1 else m_capacity v * 2"
  have n: "?n \<le> length (m_storage v)" using v by (rule valid_size_bound)
  have dn: "?d \<le> ?n" using d by (simp add: word_le_nat_alt)
  have cap: "m_capacity v \<le> max_elems" using v by (simp add: valid_def)
  have sz: "unat (m_size v + 1) = ?n + 1"
    using v by (intro unat_succ valid_size_max)
  have len_e: "length (elements v) = ?n" using n by (simp add: elements_def)
  have len_new: "length (take ?d (elements v) @ x # drop ?d (elements v)) = ?n + 1" for x
    using dn len_e by simp
  show thesis
  proof (cases "m_size v = m_capacity v")
    case full: True
    show thesis
    proof (cases "?nc \<le> max_elems")
      case True
      let ?x = "read_ref (m_storage v) val"
      let ?v' = "\<lparr>m_storage = take ?d (elements v) @ ?x # drop ?d (elements v)
                              @ replicate (unat ?nc - (?n + 1)) 0,
                  m_size = m_size v + 1, m_capacity = ?nc\<rparr>"
      have ins: "Insert distance val v = Inr (?v', distance)"
        using v full d refl True ref refl by (rule Insert_full)
      have unc: "unat ?nc = (if m_capacity v = 0 then 1 else 2 * unat (m_capacity v))"
        using cap by (simp add: unat_double)
      have "m_capacity v \<noteq> 0 \<Longrightarrow> 0 < unat (m_capacity v)" by (simp add: unat_gt_0)
      then have room: "?n + 1 \<le> unat ?nc" using full unc by (auto split: if_splits)
      have "elements ?v' = take (unat (m_size ?v')) (m_storage ?v')"
        by (rule elements_def)
      then have "elements ?v' = take ?d (elements v) @ ?x # drop ?d (elements v)"
        using take_inserted [OF len_e dn] by (simp add: sz)
      moreover have "valid ?v'"
        using True room len_new sz by (simp add: valid_def word_le_nat_alt)
      ultimately show thesis
        using ins full sz by (intro inserted [of ?v' ?x]) simp_all
    next
      case False
      then have big: "max_elems < ?nc" by simp
      with full have "Insert distance val v = Inl AllocError"
        by (intro Insert_full_fail [OF _ refl])
      with full big show thesis by (rule alloc_fails)
    qed
  next
    case spare: False
    let ?x = "read_ref (move_backward_within (m_storage v) ?d ?n (?n + 1)) val"
    let ?v' = "v\<lparr>m_storage := take ?d (elements v) @ ?x # drop ?d (elements v)
                              @ drop (?n + 1) (m_storage v),
                  m_size := m_size v + 1\<rparr>"
    have ins: "Insert distance val v = Inr (?v', distance)"
      using v spare d ref refl by (rule Insert_spare)
    have "m_size v < m_capacity v" using v spare by (auto simp: valid_def)
    then have room: "?n + 1 \<le> length (m_storage v)" "?n + 1 \<le> unat (m_capacity v)"
      using v by (simp_all add: valid_def word_less_nat_alt)
    have "elements ?v' = take (unat (m_size ?v')) (m_storage ?v')"
      by (rule elements_def)
    then have "elements ?v' = take ?d (elements v) @ ?x # drop ?d (elements v)"
      using take_inserted [OF len_e dn] by (simp add: sz)
    moreover have "valid ?v'"
      using v room len_new sz by (simp add: valid_def word_le_nat_alt)
    ultimately show thesis
      using ins spare sz by (intro inserted [of ?v' ?x]) simp_all
  qed
qed

text \<open>
  The value \<^verbatim>\<open>Insert\<close> places is the one its argument held at the call, unless the
  argument is a slot behind the offset of a vector with spare capacity: then the shift
  has already replaced it by its left neighbour.
\<close>

lemma Insert_reads_shifted:
  assumes v: "valid v" and d: "distance \<le> m_size v" and ref: "ref_in_block (m_storage v) val"
  shows "(if m_size v = m_capacity v then read_ref (m_storage v) val
          else read_ref (move_backward_within (m_storage v) (unat distance) (unat (m_size v))
                           (unat (m_size v) + 1)) val) =
         (case val of
            Outside x \<Rightarrow> x
          | Own_slot k \<Rightarrow>
              if m_size v \<noteq> m_capacity v \<and> unat distance < k \<and> k \<le> unat (m_size v)
              then m_storage v ! (k - 1) else m_storage v ! k)"
proof (cases "m_size v = m_capacity v")
  case True
  then show ?thesis by (simp add: read_ref_def split: value_ref.splits)
next
  case False
  have dn: "unat distance \<le> unat (m_size v)" using d by (simp add: word_le_nat_alt)
  have "m_size v < m_capacity v" using v False by (auto simp: valid_def)
  then have room: "unat (m_size v) + 1 \<le> length (m_storage v)"
    using v by (simp add: valid_def word_less_nat_alt)
  show ?thesis
    using False read_after_shift [OF dn room ref] by (simp split: value_ref.splits)
qed

lemma drop_move_within:
  assumes "d + 1 \<le> n" "n \<le> length st"
  shows "drop (n - 1) (move_within st (d + 1) n d) = drop (n - 1) st"
proof (intro nth_equalityI)
  show "length (drop (n - 1) (move_within st (d + 1) n d)) = length (drop (n - 1) st)"
    by (simp add: length_move_within)
next
  fix i
  assume "i < length (drop (n - 1) (move_within st (d + 1) n d))"
  then have i: "n - 1 + i < length st" by (simp add: length_move_within)
  have "\<not> (d \<le> n - 1 + i \<and> n - 1 + i < d + (n - (d + 1)))" using assms by arith
  then have "move_within st (d + 1) n d ! (n - 1 + i) = st ! (n - 1 + i)"
    using i by (simp only: nth_move_within [OF le_add1 i] if_False)
  then show "drop (n - 1) (move_within st (d + 1) n d) ! i = drop (n - 1) st ! i"
    using i by (simp add: length_move_within)
qed

lemma Erase_outcome:
  assumes d: "unat distance + 1 \<le> unat (m_size v)" and n: "unat (m_size v) \<le> length (m_storage v)"
  obtains v' where "Erase distance v = Inr (v', distance)"
    "m_size v' = m_size v - 1" "unat (m_size v') = unat (m_size v) - 1"
    "m_capacity v' = m_capacity v"
    "elements v' = take (unat distance) (elements v) @ drop (unat distance + 1) (elements v)"
    "length (m_storage v') = length (m_storage v)"
proof -
  let ?n = "unat (m_size v)" and ?d = "unat distance" and ?st = "m_storage v"
  let ?v' = "v\<lparr>m_storage := move_within ?st (?d + 1) ?n ?d, m_size := m_size v - 1\<rparr>"
  have er: "Erase distance v = Inr (?v', distance)"
    using d n by (simp add: Erase_def)
  have "m_size v \<noteq> 0" using d by (auto simp: unat_eq_zero)
  then have sz: "unat (m_size v - 1) = ?n - 1"
    by (simp add: unat_minus_one)
  have "elements ?v' = take (?n - 1) (move_within ?st (?d + 1) ?n ?d)"
    by (simp add: elements_def sz)
  also have "\<dots> = take ?d ?st @ take (?n - 1 - ?d) (drop (?d + 1) ?st)"
    using d n by (rule erase_take)
  also have "\<dots> = take ?d (elements v) @ drop (?d + 1) (elements v)"
    using d by (simp add: elements_def drop_take min_def)
  finally have "elements ?v' = take ?d (elements v) @ drop (?d + 1) (elements v)" .
  then show thesis
    using er sz by (intro that [of ?v']) (simp_all add: length_move_within)
qed

lemma Insert_then_Erase:
  assumes v: "valid v" and d: "distance \<le> m_size v" and ref: "ref_in_block (m_storage v) val"
    and ins: "Insert distance val v = Inr (v1, it)"
  obtains v2 where "Erase it v1 = Inr (v2, it)" "elements v2 = elements v"
    "m_size v2 = m_size v" "m_capacity v2 = m_capacity v1"
proof -
  from v d ref obtain v' x where v': "Insert distance val v = Inr (v', distance)"
      "m_size v' = m_size v + 1" "unat (m_size v') = unat (m_size v) + 1"
      "elements v' = take (unat distance) (elements v) @ x # drop (unat distance) (elements v)"
      "valid v'"
    using ins by (cases rule: Insert_outcome [where val = val]) simp_all
  from v'(1) ins have eq: "v1 = v'" "it = distance" by simp_all
  have dn: "unat distance \<le> unat (m_size v)" using d by (simp add: word_le_nat_alt)
  have len_e: "length (elements v) = unat (m_size v)"
    using valid_size_bound [OF v] by (simp add: elements_def)
  have "unat distance + 1 \<le> unat (m_size v')" using dn v'(3) by simp
  moreover have "unat (m_size v') \<le> length (m_storage v')" using v'(5) by (rule valid_size_bound)
  ultimately obtain v2 where v2: "Erase distance v' = Inr (v2, distance)"
    "m_size v2 = m_size v' - 1" "m_capacity v2 = m_capacity v'"
    "elements v2 = take (unat distance) (elements v') @ drop (unat distance + 1) (elements v')"
    by (rule Erase_outcome)
  have "elements v2 = elements v"
    using v2(4) v'(4) dn len_e by simp
  moreover have "m_size v2 = m_size v" using v2(2) v'(2) by simp
  ultimately show thesis using v2(1,3) eq by (intro that [of v2]) simp_all
qed

lemma SimpleVector_copy_valid:
  assumes v: "valid v"
  shows "SimpleVector_copy v =
           Inr \<lparr>m_storage = elements v, m_size = m_size v, m_capacity = m_size v\<rparr>"
proof -
  let ?n = "unat (m_size v)"
  have n: "?n \<le> length (m_storage v)" using v by (rule valid_size_bound)
  have ok: "\<not> max_elems < m_size v" using valid_size_max [OF v] by simp
  let ?r = "std_move (m_storage v) 0 ?n (replicate ?n 0) 0"
  have "take ?n ?r = take ?n (m_storage v)"
    using n by (intro take_std_move_prefix) simp_all
  moreover have "length ?r = ?n" by (simp add: length_std_move)
  ultimately have "?r = elements v" by (simp add: elements_def)
  then show ?thesis
    using n ok by (simp add: SimpleVector_copy_def ArrayPtr_new_def std_copy_def)
qed

section \<open>The growth loop of Resize\<close>

lemma grow_capacity_zero:
  assumes "0 < n"
  shows "grow_capacity n 0 = None"
proof (rule ccontr)
  assume "grow_capacity n 0 \<noteq> None"
  then obtain y where y: "grow_capacity n 0 = Some y" by auto
  have "\<not> ((0::size_t) = 0 \<and> 0 < n)"
  proof (rule grow_capacity.raw_induct [where P = "\<lambda>m c r. \<not> (c = 0 \<and> 0 < m)", OF _ y])
    fix g :: "size_t \<Rightarrow> size_t \<Rightarrow> size_t option" and m c r :: size_t
    assume ih: "\<And>a b y. g a b = Some y \<Longrightarrow> \<not> (b = 0 \<and> 0 < a)"
      and eq: "(if c < m then g m (c * 2) else Some c) = Some r"
    show "\<not> (c = 0 \<and> 0 < m)"
    proof
      assume stuck: "c = 0 \<and> 0 < m"
      then have "g m 0 = Some r" using eq by simp
      from ih [OF this] stuck show False by simp
    qed
  qed
  with assms show False by simp
qed

lemma grow_capacity_doubling:
  assumes "unat c * 2 ^ k < 2 ^ 64" "unat n \<le> unat c * 2 ^ k" "\<forall>j<k. unat c * 2 ^ j < unat n"
  shows "grow_capacity n c = Some (c * 2 ^ k) \<and> unat (c * 2 ^ k) = unat c * 2 ^ k"
  using assms
proof (induction k arbitrary: c)
  case 0
  then have "\<not> c < n" by (simp add: word_less_nat_alt)
  then show ?case by (subst grow_capacity.simps) simp
next
  case (Suc k)
  from Suc.prems(3) have "unat c * 2 ^ 0 < unat n" by blast
  then have lt: "c < n" by (simp add: word_less_nat_alt)
  have "unat c * 2 \<le> unat c * 2 ^ Suc k" by simp
  with Suc.prems(1) have "unat c * 2 < 2 ^ 64" by linarith
  then have dbl: "unat (c * 2) = unat c * 2"
    by (simp add: unat_word_ariths)
  have "grow_capacity n (c * 2) = Some (c * 2 * 2 ^ k) \<and> unat (c * 2 * 2 ^ k) = unat (c * 2) * 2 ^ k"
  proof (rule Suc.IH)
    show "unat (c * 2) * 2 ^ k < 2 ^ 64" using Suc.prems(1) by (simp add: dbl mult.assoc)
    show "unat n \<le> unat (c * 2) * 2 ^ k" using Suc.prems(2) by (simp add: dbl mult.assoc)
    show "\<forall>j<k. unat (c * 2) * 2 ^ j < unat n"
    proof (intro allI impI)
      fix j assume "j < k"
      then have "unat c * 2 ^ Suc j < unat n" using Suc.prems(3) by (meson Suc_mono)
      then show "unat (c * 2) * 2 ^ j < unat n" by (simp add: dbl mult.assoc)
    qed
  qed
  moreover have "grow_capacity n c = grow_capacity n (c * 2)"
    using lt by (subst grow_capacity.simps) simp
  ultimately show ?case by (simp add: dbl mult.assoc)
qed

lemma grow_capacity_step:
  "c \<noteq> 0 \<Longrightarrow> c < n \<Longrightarrow> grow_capacity n c = grow_capacity n (c * 2)"
  by (subst grow_capacity.simps) simp

lemma size_t_wraps: "(0x10000000000000000 :: size_t) = 0"
  by simp

lemma grow_capacity_overflow: "grow_capacity 0x8000000000000001 1 = None"
  by (simp add: grow_capacity_step grow_capacity_zero size_t_wraps)

section \<open>Resize on a well-formed vector\<close>

lemma Resize_shrink:
  assumes v: "valid v" and le: "new_size \<le> m_size v"
  shows "Resize new_size v = Some (Inr (v\<lparr>m_size := new_size\<rparr>))"
proof -
  have "new_size \<le> m_capacity v" using v le by (auto simp: valid_def)
  then have "\<not> m_capacity v < new_size" "\<not> m_size v < new_size"
    using le by (simp_all add: not_less)
  then show ?thesis by (simp add: Resize_def)
qed

lemma Resize_in_place:
  assumes v: "valid v" and gt: "m_size v < new_size" and le: "new_size \<le> m_capacity v"
  shows "Resize new_size v =
           Some (Inr (v\<lparr>m_storage := elements v
                                @ replicate (unat new_size - unat (m_size v)) 0
                                @ drop (unat new_size) (m_storage v),
                            m_size := new_size\<rparr>))"
proof -
  let ?n = "unat (m_size v)" and ?m = "unat new_size" and ?st = "m_storage v"
  have nm: "?n \<le> ?m" using gt by (simp add: word_less_nat_alt)
  have m: "?m \<le> length ?st" using v le by (simp add: valid_def word_le_nat_alt)
  let ?r = "FillWithDefault ?st ?n ?m"
  have "?r = take ?m ?r @ drop ?m ?r" by simp
  also have "take ?m ?r = take ?n ?st @ replicate (?m - ?n) 0"
    using nm m by (rule take_FillWithDefault)
  also have "drop ?m ?r = drop ?m ?st"
    using m by (rule drop_FillWithDefault)
  finally have "?r = elements v @ replicate (?m - ?n) 0 @ drop ?m ?st"
    by (simp add: elements_def)
  moreover have "\<not> m_capacity v < new_size" using le by (simp add: not_less)
  ultimately show ?thesis using gt m by (simp add: Resize_def)
qed

lemma Resize_grow:
  assumes v: "valid v" and gt: "m_capacity v < new_size"
    and c0: "c0 = (if m_capacity v = 0 then 1 else m_capacity v)"
    and fits: "unat c0 * 2 ^ k \<le> unat max_elems"
    and reach: "unat new_size \<le> unat c0 * 2 ^ k"
    and least: "\<forall>j<k. unat c0 * 2 ^ j < unat new_size"
  shows "Resize new_size v =
           Some (Inr \<lparr>m_storage = elements v @ replicate (unat c0 * 2 ^ k - unat (m_size v)) 0,
                       m_size = new_size, m_capacity = c0 * 2 ^ k\<rparr>)"
proof -
  let ?n = "unat (m_size v)" and ?st = "m_storage v"
  let ?nc = "c0 * 2 ^ k"
  have "unat c0 * 2 ^ k < 2 ^ 64" using fits by (simp add: unat_max_elems)
  then have g: "grow_capacity new_size c0 = Some ?nc" and u: "unat ?nc = unat c0 * 2 ^ k"
    using grow_capacity_doubling [OF _ reach least] by simp_all
  have ok: "\<not> max_elems < ?nc" using fits u by (simp add: word_less_nat_alt)
  let ?tmp = "replicate (unat ?nc) (0::'a)"
  have n: "?n \<le> length ?st" using v by (rule valid_size_bound)
  have "m_size v \<le> new_size" using v gt by (auto simp: valid_def)
  then have "?n \<le> unat new_size" by (simp add: word_le_nat_alt)
  then have room: "?n \<le> unat ?nc" using reach u by simp
  let ?mv = "std_move ?st 0 ?n ?tmp 0"
  let ?r = "FillWithDefault ?mv ?n (unat ?nc)"
  have len: "length ?mv = unat ?nc" by (simp add: length_std_move)
  have "?r = take (unat ?nc) ?r" by (simp add: length_FillWithDefault len)
  also have "\<dots> = take ?n ?mv @ replicate (unat ?nc - ?n) 0"
    using room by (intro take_FillWithDefault) (simp_all add: len)
  also have "take ?n ?mv = take ?n ?st"
    using n room by (intro take_std_move_prefix) simp_all
  finally have r: "?r = elements v @ replicate (unat c0 * 2 ^ k - ?n) 0"
    by (simp add: elements_def u)
  show ?thesis
    using gt g ok n room r c0 [symmetric] by (simp add: Resize_def ArrayPtr_new_def)
qed

lemma Resize_grow_alloc_fails:
  assumes gt: "m_capacity v < new_size"
    and c0: "c0 = (if m_capacity v = 0 then 1 else m_capacity v)"
    and big: "unat max_elems < unat c0 * 2 ^ k" "unat c0 * 2 ^ k < 2 ^ 64"
    and reach: "unat new_size \<le> unat c0 * 2 ^ k"
    and least: "\<forall>j<k. unat c0 * 2 ^ j < unat new_size"
  shows "Resize new_size v = Some (Inl AllocError)"
proof -
  let ?nc = "c0 * 2 ^ k"
  have g: "grow_capacity new_size c0 = Some ?nc" and u: "unat ?nc = unat c0 * 2 ^ k"
    using grow_capacity_doubling [OF big(2) reach least] by simp_all
  have "max_elems < ?nc" using big(1) u by (simp add: word_less_nat_alt)
  then show ?thesis
    using gt g c0 [symmetric] by (simp add: Resize_def ArrayPtr_new_def)
qed

section \<open>The invariant under the constructors and operations other than move\<close>

text \<open>
  Every constructor but the move constructor produces a well-formed vector, and every
  mutating operation keeps a well-formed vector well formed whenever it returns one.
\<close>

lemma valid_invariant: "valid v \<Longrightarrow> size_le_capacity v"
  by (simp add: valid_def size_le_capacity_def)

lemma valid_default: "valid SimpleVector_default"
  by (simp add: valid_def SimpleVector_default_def)

lemma ArrayPtr_new_Inr:
  "ArrayPtr_new n = Inr tmp \<Longrightarrow> n \<le> max_elems \<and> tmp = replicate (unat n) 0"
  by (auto simp: ArrayPtr_new_def not_less split: if_splits)

lemma valid_fill:
  assumes "SimpleVector_fill n x = Inr v"
  shows "valid v \<and> m_size v = n \<and> elements v = replicate (unat n) x"
proof -
  from assms obtain st where st: "ArrayPtr_new n = Inr st"
    and v: "v = \<lparr>m_storage = std_fill st 0 (unat n) x, m_size = n, m_capacity = n\<rparr>"
    by (auto simp: SimpleVector_fill_def split: sum.splits)
  from st have n: "n \<le> max_elems" and st': "st = replicate (unat n) 0"
    using ArrayPtr_new_Inr by blast+
  have "std_fill st 0 (unat n) x = replicate (unat n) x"
    unfolding st' by (rule std_fill_replicate)
  then show ?thesis using v n by (simp add: valid_def elements_def)
qed

lemma valid_sized:
  "SimpleVector_sized n = Inr v \<Longrightarrow> valid v \<and> m_size v = n \<and> elements v = replicate (unat n) 0"
  unfolding SimpleVector_sized_def by (rule valid_fill)

lemma valid_init:
  assumes "SimpleVector_init init = Inr v" "length init < 2 ^ 64"
  shows "valid v \<and> unat (m_size v) = length init \<and> elements v = init"
proof -
  let ?n = "of_nat (length init) :: size_t"
  have u: "unat ?n = length init" using assms(2) by (simp add: unat_of_nat)
  from assms(1) obtain st where st: "ArrayPtr_new ?n = Inr st"
    and v: "v = \<lparr>m_storage = std_copy init 0 (length init) st 0, m_size = ?n, m_capacity = ?n\<rparr>"
    by (auto simp: SimpleVector_init_def split: sum.splits)
  from st have n: "?n \<le> max_elems" and st': "st = replicate (unat ?n) 0"
    using ArrayPtr_new_Inr by blast+
  have "std_copy init 0 (length init) st 0 = init"
    by (rule std_copy_all) (simp add: st' u)
  then show ?thesis using v n u by (simp add: valid_def elements_def)
qed

lemma valid_Reserve:
  fixes v :: "('a::zero) SimpleVector"
  assumes "valid v" "Reserve n v = Inr v'"
  shows "valid v' \<and> m_size v' = m_size v \<and> elements v' = elements v \<and>
         m_capacity v' = (if m_capacity v < n then n else m_capacity v)"
proof (cases "m_capacity v < n")
  case False
  with assms show ?thesis by (simp add: Reserve_def)
next
  case True
  let ?k = "unat (m_size v)"
  have k: "?k \<le> length (m_storage v)" using assms(1) by (rule valid_size_bound)
  from assms(2) True obtain tmp :: "'a list" where tmp: "ArrayPtr_new n = Inr tmp"
    by (cases "ArrayPtr_new n :: error + 'a list") (auto simp: Reserve_def)
  then have n: "n \<le> max_elems" and tmp': "tmp = replicate (unat n) 0"
    using ArrayPtr_new_Inr by blast+
  have "m_size v \<le> n" using assms(1) True by (auto simp: valid_def)
  then have kn: "?k \<le> unat n" by (simp add: word_le_nat_alt)
  have v': "v' = \<lparr>m_storage = std_move (m_storage v) 0 ?k tmp 0, m_size = m_size v,
                  m_capacity = n\<rparr>"
    using assms(2) True tmp k kn tmp' by (simp add: Reserve_def)
  have "take ?k (std_move (m_storage v) 0 ?k tmp 0) = take ?k (m_storage v)"
    using k kn by (intro take_std_move_prefix) (simp_all add: tmp')
  then show ?thesis
    using v' True n \<open>m_size v \<le> n\<close>
    by (simp add: valid_def elements_def length_std_move tmp')
qed

lemma valid_reserved:
  "SimpleVector_reserved p = Inr (v :: ('a::zero) SimpleVector) \<Longrightarrow> valid v"
  unfolding SimpleVector_reserved_def
  using valid_Reserve [OF valid_default] by blast

lemma valid_Clear: "valid v \<Longrightarrow> valid (Clear v)"
  by (simp add: valid_def Clear_def)

lemma valid_PopBack:
  assumes "valid v" "m_size v \<noteq> 0"
  shows "valid (PopBack v)"
proof -
  have "m_size v - 1 \<le> m_size v" using assms(2) by (simp add: word_le_nat_alt unat_minus_one)
  then show ?thesis using assms(1) by (auto simp: valid_def PopBack_def)
qed

lemma valid_PushBack:
  assumes "valid v" "ref_in_block (m_storage v) item" "PushBack item v = Inr v'"
  shows "valid v'"
proof -
  have "end_offset v \<le> m_size v" by (simp add: end_offset_def)
  with assms(1) show ?thesis
    using assms(2,3)
    by (cases rule: Insert_outcome [where val = item]) (auto simp: PushBack_def)
qed

lemma valid_Erase:
  assumes "valid v" "distance < m_size v" "Erase distance v = Inr (v', it)"
  shows "valid v'"
proof -
  have d: "unat distance + 1 \<le> unat (m_size v)"
    using assms(2) by (simp add: word_less_nat_alt)
  have n: "unat (m_size v) \<le> length (m_storage v)" using assms(1) by (rule valid_size_bound)
  from d n obtain w where w: "Erase distance v = Inr (w, distance)"
    "m_size w = m_size v - 1" "unat (m_size w) = unat (m_size v) - 1"
    "m_capacity w = m_capacity v" "length (m_storage w) = length (m_storage v)"
    by (rule Erase_outcome)
  with assms(3) have "v' = w" by simp
  moreover have "unat (m_size v) \<le> unat (m_capacity v)"
    using assms(1) by (simp add: valid_def word_le_nat_alt)
  then have "m_size w \<le> m_capacity w"
    using w(3,4) by (simp add: word_le_nat_alt)
  ultimately show ?thesis using w(4,5) assms(1) by (simp add: valid_def)
qed

lemma valid_swap:
  assumes "valid a" "valid b" "swap_vectors a b = (a', b')"
  shows "valid a' \<and> valid b'"
  using assms by (auto simp: swap_vectors_def ArrayPtr_swap_def valid_def)

lemma grow_capacity_reaches:
  assumes "grow_capacity n c = Some r"
  shows "n \<le> r"
proof (rule grow_capacity.raw_induct [where P = "\<lambda>n c r. n \<le> r", OF _ assms])
  fix g :: "size_t \<Rightarrow> size_t \<Rightarrow> size_t option" and m c r :: size_t
  assume ih: "\<And>a b y. g a b = Some y \<Longrightarrow> a \<le> y"
    and eq: "(if c < m then g m (c * 2) else Some c) = Some r"
  show "m \<le> r"
  proof (cases "c < m")
    case True
    with eq have "g m (c * 2) = Some r" by simp
    then show ?thesis by (rule ih)
  next
    case False
    with eq show ?thesis by (simp add: not_less)
  qed
qed

lemma valid_Resize:
  fixes v :: "('a::zero) SimpleVector"
  assumes "valid v" "Resize n v = Some (Inr v')"
  shows "valid v' \<and> m_size v' = n"
proof -
  have k: "unat (m_size v) \<le> length (m_storage v)" using assms(1) by (rule valid_size_bound)
  consider "m_capacity v < n" | "m_size v < n" "n \<le> m_capacity v" | "n \<le> m_size v"
    by (meson not_less)
  then show ?thesis
  proof cases
    case 1
    let ?c0 = "if m_capacity v = 0 then 1 else m_capacity v"
    from assms(2) 1 obtain r where r: "grow_capacity n ?c0 = Some r"
      by (auto simp: Resize_def split: option.splits)
    from assms(2) 1 r obtain tmp :: "'a list" where tmp: "ArrayPtr_new r = Inr tmp"
      by (cases "ArrayPtr_new r :: error + 'a list") (auto simp: Resize_def)
    then have rm: "r \<le> max_elems" and tmp': "tmp = replicate (unat r) 0"
      using ArrayPtr_new_Inr by blast+
    have nr: "n \<le> r" using r by (rule grow_capacity_reaches)
    have "m_size v \<le> n" using assms(1) 1 by (auto simp: valid_def)
    then have "unat (m_size v) \<le> unat r" using nr by (simp add: word_le_nat_alt)
    then have "v' = \<lparr>m_storage = FillWithDefault
                        (std_move (m_storage v) 0 (unat (m_size v)) tmp 0)
                        (unat (m_size v)) (unat r),
                      m_size = n, m_capacity = r\<rparr>"
      using assms(2) 1 r tmp k by (simp add: Resize_def tmp')
    then show ?thesis
      using nr rm by (simp add: valid_def length_FillWithDefault length_std_move tmp')
  next
    case 2
    then have "\<not> m_capacity v < n" by (simp add: not_less)
    moreover have "unat n \<le> length (m_storage v)"
      using 2 assms(1) by (simp add: valid_def word_le_nat_alt)
    ultimately have "v' = v\<lparr>m_storage := FillWithDefault (m_storage v) (unat (m_size v)) (unat n),
                            m_size := n\<rparr>"
      using assms(2) 2 by (simp add: Resize_def)
    then show ?thesis using 2 assms(1) by (simp add: valid_def length_FillWithDefault)
  next
    case 3
    with assms have "v' = v\<lparr>m_size := n\<rparr>" by (simp add: Resize_shrink)
    moreover have "n \<le> m_capacity v" using 3 assms(1) by (auto simp: valid_def)
    ultimately show ?thesis using assms(1) by (simp add: valid_def)
  qed
qed

lemma valid_copy:
  assumes "valid v" "SimpleVector_copy v = Inr w"
  shows "valid w"
proof -
  have w: "w = \<lparr>m_storage = elements v, m_size = m_size v, m_capacity = m_size v\<rparr>"
    using assms(2) SimpleVector_copy_valid [OF assms(1)] by simp
  have "length (elements v) = unat (m_size v)"
    using valid_size_bound [OF assms(1)] by (simp add: elements_def)
  then show ?thesis
    using valid_size_max [OF assms(1)] by (simp add: w valid_def)
qed

lemma valid_copy_assign:
  assumes "valid (s this)" "valid (s rhs)" "copy_assign this rhs s = Inr s'"
  shows "valid (s' this) \<and> valid (s' rhs)"
proof (cases "this = rhs")
  case True
  with assms show ?thesis by (simp add: copy_assign_def)
next
  case False
  from assms(3) False obtain tmp where tmp: "SimpleVector_copy (s rhs) = Inr tmp"
    by (cases "SimpleVector_copy (s rhs)") (simp_all add: copy_assign_def)
  with assms(2) have vt: "valid tmp" by (rule valid_copy)
  obtain a b where sw: "swap_vectors (s this) tmp = (a, b)" by (cases "swap_vectors (s this) tmp")
  have s': "s' = s(this := a)"
    using assms(3) False tmp sw by (simp add: copy_assign_def)
  have "valid a" using valid_swap [OF assms(1) vt sw] by simp
  then show ?thesis using s' False assms(2) by simp
qed

section \<open>The properties of the specification\<close>

subsection \<open>Auxiliary facts\<close>

lemma nth_of_elements:
  "i < unat (m_size v) \<Longrightarrow> m_storage v ! i = elements v ! i"
  by (simp add: elements_def)

lemma doubled_differs:
  assumes "c \<le> max_elems" "c \<noteq> 0"
  shows "c * 2 \<noteq> c"
proof
  assume "c * 2 = c"
  then have "unat (c * 2) = unat c" by simp
  then have "2 * unat c = unat c" using assms(1) by (simp add: unat_double)
  then have "unat c = 0" by simp
  then show False using assms(2) by (simp add: unat_eq_zero)
qed

subsection \<open>Move construction\<close>

text \<open>
  C1. Move-constructing \<open>w\<close> from \<open>v\<close> should hand the block of \<open>v\<close> to \<open>w\<close>, give
  \<open>w\<close> the size and the capacity \<open>v\<close> had, and leave \<open>v\<close> with size 0, capacity 0 and
  no block. The constructor exchanges \<^verbatim>\<open>other.size_\<close> twice and never reads or clears
  \<^verbatim>\<open>other.capacity_\<close>: for every \<open>v\<close> the new vector holds the block and the size of \<open>v\<close>
  but capacity 0, and \<open>v\<close> is left with no block and size 0 but its old capacity.
\<close>

theorem SimpleVector_move_result:
  "SimpleVector_move v =
     (\<lparr>m_storage = m_storage v, m_size = m_size v, m_capacity = 0\<rparr>,
      \<lparr>m_storage = [], m_size = 0, m_capacity = m_capacity v\<rparr>)"
  by (simp add: SimpleVector_move_def ArrayPtr_move_def exchange_size_def)

subsection \<open>The invariant\<close>

text \<open>
  C2. The invariant \<open>size \<le> capacity\<close> should hold for every vector a constructor
  produces. The vector \<open>{1, 2, 3}\<close> with size 3 and capacity 3 is well formed; the vector
  move-constructed from it has size 3 and capacity 0, so the invariant is false for it.
\<close>

theorem SimpleVector_move_breaks_invariant:
  "valid \<lparr>m_storage = [1, 2, 3 :: int], m_size = 3, m_capacity = 3\<rparr> \<and>
   \<not> size_le_capacity
        (fst (SimpleVector_move \<lparr>m_storage = [1, 2, 3 :: int], m_size = 3, m_capacity = 3\<rparr>))"
  by (simp add: SimpleVector_move_def ArrayPtr_move_def exchange_size_def valid_def
        size_le_capacity_def max_elems_def)

subsection \<open>Construction from a reservation request\<close>

text \<open>
  C3. For every requested capacity \<open>c\<close>, constructing from the reservation request
  carrying \<open>c\<close> yields a well-formed vector with size 0 (no live element), capacity \<open>c\<close>
  and a block of \<open>c\<close> slots. The only other outcome is the allocation error, raised
  exactly when no block of \<open>c\<close> slots exists (\<open>c > max_elems\<close>).
\<close>

theorem SimpleVector_reserved_result:
  "(case SimpleVector_reserved (Reserve_request c) :: error + ('a::zero) SimpleVector of
      Inl e \<Rightarrow> e = AllocError \<and> max_elems < c
    | Inr v \<Rightarrow> m_size v = 0 \<and> m_capacity v = c \<and> length (m_storage v) = unat c \<and>
               elements v = [] \<and> valid v)"
  by (cases "c = 0")
     (auto simp add: SimpleVector_reserved_def Reserve_request_def GetValue_def Reserve_def
        SimpleVector_default_def ArrayPtr_new_def std_move.simps word_gt_0 elements_def
        valid_def not_less)

subsection \<open>Checked access\<close>

text \<open>
  C4. For every vector and every index \<open>i\<close>, \<^verbatim>\<open>At(i)\<close>, mutable and const, fails if
  and only if \<open>i \<ge> size\<close>, and then with the out-of-range error; for \<open>i < size\<close> it returns
  the reference unchecked indexing returns; the vector is the same afterwards.
\<close>

theorem At_checked:
  "((\<exists>e. fst (At v i) = Inl e) \<longleftrightarrow> m_size v \<le> i) \<and>
   ((\<exists>e. At_const v i = Inl e) \<longleftrightarrow> m_size v \<le> i) \<and>
   (m_size v \<le> i \<longrightarrow> fst (At v i) = Inl OutOfRange \<and> At_const v i = Inl OutOfRange) \<and>
   (i < m_size v \<longrightarrow> fst (At v i) = Inr (subscript v i) \<and> At_const v i = Inr (subscript v i)) \<and>
   snd (At v i) = v"
  by (auto simp: At_def At_const_def)

theorem At_checked_witness:
  "fst (At \<lparr>m_storage = [1, 2, 3 :: int], m_size = 3, m_capacity = 3\<rparr> 3) = Inl OutOfRange \<and>
   At_const \<lparr>m_storage = [1, 2, 3 :: int], m_size = 3, m_capacity = 3\<rparr> 3 = Inl OutOfRange \<and>
   fst (At \<lparr>m_storage = [1, 2, 3 :: int], m_size = 3, m_capacity = 3\<rparr> 1) = Inr 1 \<and>
   At_const \<lparr>m_storage = [1, 2, 3 :: int], m_size = 3, m_capacity = 3\<rparr> 1 = Inr 1 \<and>
   deref \<lparr>m_storage = [1, 2, 3 :: int], m_size = 3, m_capacity = 3\<rparr> 1 = 2"
  using At_checked [of "\<lparr>m_storage = [1, 2, 3 :: int], m_size = 3, m_capacity = 3\<rparr>" 3]
        At_checked [of "\<lparr>m_storage = [1, 2, 3 :: int], m_size = 3, m_capacity = 3\<rparr>" 1]
  by (simp add: subscript_def deref_def)

subsection \<open>Insert\<close>

text \<open>
  Where the value given to \<^verbatim>\<open>Insert\<close> is an object outside the block, or a slot that
  the shift does not move (the vector is full, or the slot is not behind the offset),
  \<^verbatim>\<open>Insert\<close> on a well-formed vector increments the size by one, places the value at
  the offset with the elements from that offset on shifted one slot to the right in
  order, returns an iterator to the inserted element, and changes the capacity exactly
  when \<open>size = capacity\<close> held before: to 1 from 0, to twice the capacity otherwise
  (without wrap-around). The overload taking an rvalue does the same. The only other
  outcome is the allocation error, when the vector is full and no block of the grown
  capacity exists.
\<close>

lemma Insert_places_unshifted_value:
  assumes "valid v" and "distance \<le> m_size v" and "ref_in_block (m_storage v) val"
    and "case val of Outside x \<Rightarrow> True
         | Own_slot k \<Rightarrow> m_size v = m_capacity v \<or> k \<le> unat distance \<or> unat (m_size v) < k"
  shows "(case Insert distance val v of
            Inl e \<Rightarrow> e = AllocError \<and> m_size v = m_capacity v \<and>
                     max_elems < (if m_capacity v = 0 then 1 else m_capacity v * 2)
          | Inr (v', it) \<Rightarrow>
              m_size v' = m_size v + 1 \<and> unat (m_size v') = unat (m_size v) + 1 \<and>
              elements v' =
                take (unat distance) (elements v) @ read_ref (m_storage v) val
                  # drop (unat distance) (elements v) \<and>
              it = distance \<and> deref v' (subscript v' it) = read_ref (m_storage v) val \<and>
              m_capacity v' =
                (if m_size v = m_capacity v
                 then (if m_capacity v = 0 then 1 else m_capacity v * 2)
                 else m_capacity v) \<and>
              unat (m_capacity v') =
                (if m_size v = m_capacity v
                 then (if m_capacity v = 0 then 1 else 2 * unat (m_capacity v))
                 else unat (m_capacity v)) \<and>
              (m_capacity v' \<noteq> m_capacity v) = (m_size v = m_capacity v) \<and>
              valid v') \<and>
         Insert_rvalue distance val v = Insert distance val v"
proof -
  have cap: "m_capacity v \<le> max_elems" using assms(1) by (simp add: valid_def)
  have dn: "unat distance \<le> unat (m_size v)" using assms(2) by (simp add: word_le_nat_alt)
  have len_e: "length (elements v) = unat (m_size v)"
    using valid_size_bound [OF assms(1)] by (simp add: elements_def)
  from assms(1-3) show ?thesis
  proof (cases rule: Insert_outcome [where val = val])
    case alloc_fails
    then show ?thesis by (simp add: Insert_rvalue_eq)
  next
    case (inserted v' x)
    have "x = (case val of
                 Outside y \<Rightarrow> y
               | Own_slot k \<Rightarrow>
                   if m_size v \<noteq> m_capacity v \<and> unat distance < k \<and> k \<le> unat (m_size v)
                   then m_storage v ! (k - 1) else m_storage v ! k)"
      using inserted(7) Insert_reads_shifted [OF assms(1-3)] by simp
    then have x: "x = read_ref (m_storage v) val"
      using assms(4) by (auto simp: read_ref_def split: value_ref.splits)
    have "unat distance < unat (m_size v')" using dn inserted(3) by simp
    then have "m_storage v' ! unat distance = elements v' ! unat distance"
      by (rule nth_of_elements)
    also have "\<dots> = x" using dn len_e by (simp add: inserted(4) nth_append)
    finally have at: "deref v' (subscript v' distance) = x"
      by (simp add: deref_def subscript_def)
    have changed: "(m_capacity v' \<noteq> m_capacity v) = (m_size v = m_capacity v)"
      using inserted(5) doubled_differs [OF cap] by auto
    have "unat (m_capacity v') =
            (if m_size v = m_capacity v
             then (if m_capacity v = 0 then 1 else 2 * unat (m_capacity v))
             else unat (m_capacity v))"
      using inserted(5) cap by (simp add: unat_double)
    then show ?thesis
      using inserted(1-6) at changed x by (simp add: Insert_rvalue_eq)
  qed
qed

lemma Insert_places_unshifted_value_example:
  "valid \<lparr>m_storage = [1, 2, 3, 0 :: int], m_size = 3, m_capacity = 4\<rparr> \<and>
   Insert 1 (Outside 9) \<lparr>m_storage = [1, 2, 3, 0 :: int], m_size = 3, m_capacity = 4\<rparr> =
     Inr (\<lparr>m_storage = [1, 9, 2, 3], m_size = 4, m_capacity = 4\<rparr>, 1) \<and>
   valid \<lparr>m_storage = [1, 2, 3 :: int], m_size = 3, m_capacity = 3\<rparr> \<and>
   Insert 3 (Outside 5) \<lparr>m_storage = [1, 2, 3 :: int], m_size = 3, m_capacity = 3\<rparr> =
     Inr (\<lparr>m_storage = [1, 2, 3, 5, 0, 0], m_size = 4, m_capacity = 6\<rparr>, 3)"
proof -
  let ?v = "\<lparr>m_storage = [1, 2, 3, 0 :: int], m_size = 3, m_capacity = 4\<rparr>"
  let ?w = "\<lparr>m_storage = [1, 2, 3 :: int], m_size = 3, m_capacity = 3\<rparr>"
  have v: "valid ?v" and w: "valid ?w" by (simp_all add: valid_def max_elems_def)
  have dv: "(1 :: size_t) \<le> m_size ?v" and dw: "(3 :: size_t) \<le> m_size ?w" by simp_all
  have ev: "Insert 1 (Outside 9) ?v =
              Inr (\<lparr>m_storage = [1, 9, 2, 3], m_size = 4, m_capacity = 4\<rparr>, 1)"
    by code_simp
  have ew: "Insert 3 (Outside 5) ?w =
              Inr (\<lparr>m_storage = [1, 2, 3, 5, 0, 0], m_size = 4, m_capacity = 6\<rparr>, 3)"
    by code_simp
  have rv: "ref_in_block (m_storage ?v) (Outside 9)"
    and rw: "ref_in_block (m_storage ?w) (Outside 5)" by (simp_all add: ref_in_block_def)
  show ?thesis
    using Insert_places_unshifted_value [OF v dv rv] Insert_places_unshifted_value [OF w dw rw] v w
    by (simp add: ev ew)
qed

text \<open>
  C5. For every vector and every position in \<open>[begin, end]\<close>, \<^verbatim>\<open>Insert(position, value)\<close>
  should place \<open>value\<close> at the offset of the position. With spare capacity the source
  shifts the block first and reads \<^verbatim>\<open>value\<close> afterwards: on the block \<open>[1, 2, 3, _]\<close>
  with size 3 and capacity 4, \<^verbatim>\<open>v.Insert(v.begin(), v[2])\<close> is given the element 3, the
  shift leaves \<open>[1, 1, 2, 3]\<close>, slot 2 now holds 2, and the result is \<open>[2, 1, 2, 3]\<close>:
  the element at the returned iterator is 2, for both overloads. The reallocating
  branch reads the old block, which it has not changed: the same call on the full vector
  \<open>[1, 2, 3]\<close> gives \<open>[3, 1, 2, 3]\<close>.
\<close>

theorem Insert_aliased_value:
  "valid \<lparr>m_storage = [1, 2, 3, 0 :: int], m_size = 3, m_capacity = 4\<rparr> \<and>
   deref \<lparr>m_storage = [1, 2, 3, 0 :: int], m_size = 3, m_capacity = 4\<rparr>
     (subscript \<lparr>m_storage = [1, 2, 3, 0 :: int], m_size = 3, m_capacity = 4\<rparr> 2) = 3 \<and>
   Insert 0 (Own_slot (subscript \<lparr>m_storage = [1, 2, 3, 0 :: int], m_size = 3, m_capacity = 4\<rparr> 2))
       \<lparr>m_storage = [1, 2, 3, 0 :: int], m_size = 3, m_capacity = 4\<rparr> =
     Inr (\<lparr>m_storage = [2, 1, 2, 3], m_size = 4, m_capacity = 4\<rparr>, 0) \<and>
   Insert_rvalue 0
       (Own_slot (subscript \<lparr>m_storage = [1, 2, 3, 0 :: int], m_size = 3, m_capacity = 4\<rparr> 2))
       \<lparr>m_storage = [1, 2, 3, 0 :: int], m_size = 3, m_capacity = 4\<rparr> =
     Inr (\<lparr>m_storage = [2, 1, 2, 3], m_size = 4, m_capacity = 4\<rparr>, 0) \<and>
   deref \<lparr>m_storage = [2, 1, 2, 3 :: int], m_size = 4, m_capacity = 4\<rparr>
     (subscript \<lparr>m_storage = [2, 1, 2, 3 :: int], m_size = 4, m_capacity = 4\<rparr> 0) = 2 \<and>
   Insert 0 (Own_slot (subscript \<lparr>m_storage = [1, 2, 3 :: int], m_size = 3, m_capacity = 3\<rparr> 2))
       \<lparr>m_storage = [1, 2, 3 :: int], m_size = 3, m_capacity = 3\<rparr> =
     Inr (\<lparr>m_storage = [3, 1, 2, 3, 0, 0], m_size = 4, m_capacity = 6\<rparr>, 0)"
proof -
  have "valid \<lparr>m_storage = [1, 2, 3, 0 :: int], m_size = 3, m_capacity = 4\<rparr>"
    by (simp add: valid_def max_elems_def)
  moreover have
    "deref \<lparr>m_storage = [1, 2, 3, 0 :: int], m_size = 3, m_capacity = 4\<rparr>
       (subscript \<lparr>m_storage = [1, 2, 3, 0 :: int], m_size = 3, m_capacity = 4\<rparr> 2) = 3"
    by code_simp
  moreover have
    "Insert 0 (Own_slot (subscript \<lparr>m_storage = [1, 2, 3, 0 :: int], m_size = 3, m_capacity = 4\<rparr> 2))
       \<lparr>m_storage = [1, 2, 3, 0 :: int], m_size = 3, m_capacity = 4\<rparr> =
     Inr (\<lparr>m_storage = [2, 1, 2, 3], m_size = 4, m_capacity = 4\<rparr>, 0)"
    by code_simp
  moreover have
    "Insert_rvalue 0
       (Own_slot (subscript \<lparr>m_storage = [1, 2, 3, 0 :: int], m_size = 3, m_capacity = 4\<rparr> 2))
       \<lparr>m_storage = [1, 2, 3, 0 :: int], m_size = 3, m_capacity = 4\<rparr> =
     Inr (\<lparr>m_storage = [2, 1, 2, 3], m_size = 4, m_capacity = 4\<rparr>, 0)"
    by code_simp
  moreover have
    "deref \<lparr>m_storage = [2, 1, 2, 3 :: int], m_size = 4, m_capacity = 4\<rparr>
       (subscript \<lparr>m_storage = [2, 1, 2, 3 :: int], m_size = 4, m_capacity = 4\<rparr> 0) = 2"
    by code_simp
  moreover have
    "Insert 0 (Own_slot (subscript \<lparr>m_storage = [1, 2, 3 :: int], m_size = 3, m_capacity = 3\<rparr> 2))
       \<lparr>m_storage = [1, 2, 3 :: int], m_size = 3, m_capacity = 3\<rparr> =
     Inr (\<lparr>m_storage = [3, 1, 2, 3, 0, 0], m_size = 4, m_capacity = 6\<rparr>, 0)"
    by code_simp
  ultimately show ?thesis by (intro conjI)
qed

subsection \<open>PushBack\<close>

text \<open>
  C6. For every vector and every value, given as any reference, \<^verbatim>\<open>PushBack\<close> (both
  overloads) yields the outcome of \<^verbatim>\<open>Insert(end(), value)\<close>: the same error, or the
  same vector (size, capacity and block) with the iterator dropped.
\<close>

theorem PushBack_is_Insert_at_end:
  "PushBack item v = map_sum id fst (Insert (end_offset v) item v) \<and>
   PushBack_rvalue item v = map_sum id fst (Insert_rvalue (end_offset v) item v) \<and>
   end_offset v = m_size v"
  by (auto simp: PushBack_def PushBack_rvalue_def end_offset_def split: sum.splits)

subsection \<open>Insert, then Erase\<close>

text \<open>
  C7. For every well-formed vector, every position in \<open>[begin, end]\<close> and every value,
  given as an object outside the block or as any slot of the block, \<^verbatim>\<open>Insert\<close>
  followed by \<^verbatim>\<open>Erase\<close> on the returned iterator leaves the live elements and the size
  as they were before the \<^verbatim>\<open>Insert\<close>. \<^verbatim>\<open>Erase\<close> never fails there; the \<^verbatim>\<open>Insert\<close>
  fails only with the allocation error of a full vector that cannot grow.
\<close>

theorem Insert_Erase_round_trip:
  assumes "valid v" and "distance \<le> m_size v" and "ref_in_block (m_storage v) val"
  shows "(case Insert distance val v of
            Inl e \<Rightarrow> e = AllocError \<and> m_size v = m_capacity v \<and>
                     max_elems < (if m_capacity v = 0 then 1 else m_capacity v * 2)
          | Inr (v1, it) \<Rightarrow>
              (case Erase it v1 of
                 Inl e \<Rightarrow> False
               | Inr (v2, it2) \<Rightarrow>
                   elements v2 = elements v \<and> m_size v2 = m_size v \<and> it2 = it))"
proof (cases "Insert distance val v")
  case (Inl e)
  with assms show ?thesis
    by (cases rule: Insert_outcome [where val = val]) simp_all
next
  case (Inr r)
  obtain v1 it where r: "r = (v1, it)" by (cases r)
  with Inr have ins: "Insert distance val v = Inr (v1, it)" by simp
  from assms ins obtain v2 where "Erase it v1 = Inr (v2, it)" "elements v2 = elements v"
      "m_size v2 = m_size v"
    by (rule Insert_then_Erase)
  then show ?thesis using ins by simp
qed

theorem Insert_Erase_round_trip_witness:
  "valid \<lparr>m_storage = [1, 2, 3 :: int], m_size = 3, m_capacity = 3\<rparr> \<and>
   Insert 1 (Outside 9) \<lparr>m_storage = [1, 2, 3 :: int], m_size = 3, m_capacity = 3\<rparr> =
     Inr (\<lparr>m_storage = [1, 9, 2, 3, 0, 0], m_size = 4, m_capacity = 6\<rparr>, 1) \<and>
   Erase 1 \<lparr>m_storage = [1, 9, 2, 3, 0, 0 :: int], m_size = 4, m_capacity = 6\<rparr> =
     Inr (\<lparr>m_storage = [1, 2, 3, 3, 0, 0], m_size = 3, m_capacity = 6\<rparr>, 1) \<and>
   elements \<lparr>m_storage = [1, 2, 3, 3, 0, 0 :: int], m_size = 3, m_capacity = 6\<rparr> =
     elements \<lparr>m_storage = [1, 2, 3 :: int], m_size = 3, m_capacity = 3\<rparr> \<and>
   valid \<lparr>m_storage = [1, 2, 3, 0 :: int], m_size = 3, m_capacity = 4\<rparr> \<and>
   Insert 0 (Own_slot 2) \<lparr>m_storage = [1, 2, 3, 0 :: int], m_size = 3, m_capacity = 4\<rparr> =
     Inr (\<lparr>m_storage = [2, 1, 2, 3], m_size = 4, m_capacity = 4\<rparr>, 0) \<and>
   Erase 0 \<lparr>m_storage = [2, 1, 2, 3 :: int], m_size = 4, m_capacity = 4\<rparr> =
     Inr (\<lparr>m_storage = [1, 2, 3, 3], m_size = 3, m_capacity = 4\<rparr>, 0) \<and>
   elements \<lparr>m_storage = [1, 2, 3, 3 :: int], m_size = 3, m_capacity = 4\<rparr> =
     elements \<lparr>m_storage = [1, 2, 3, 0 :: int], m_size = 3, m_capacity = 4\<rparr>"
proof -
  let ?v = "\<lparr>m_storage = [1, 2, 3 :: int], m_size = 3, m_capacity = 3\<rparr>"
  let ?w = "\<lparr>m_storage = [1, 2, 3, 0 :: int], m_size = 3, m_capacity = 4\<rparr>"
  have v: "valid ?v" and w: "valid ?w" by (simp_all add: valid_def max_elems_def)
  have d: "(1 :: size_t) \<le> m_size ?v" and dw: "(0 :: size_t) \<le> m_size ?w" by simp_all
  have rv: "ref_in_block (m_storage ?v) (Outside 9)"
    and rw: "ref_in_block (m_storage ?w) (Own_slot 2)" by (simp_all add: ref_in_block_def)
  have ins: "Insert 1 (Outside 9) ?v =
               Inr (\<lparr>m_storage = [1, 9, 2, 3, 0, 0], m_size = 4, m_capacity = 6\<rparr>, 1)"
    by code_simp
  have er: "Erase 1 \<lparr>m_storage = [1, 9, 2, 3, 0, 0 :: int], m_size = 4, m_capacity = 6\<rparr> =
     Inr (\<lparr>m_storage = [1, 2, 3, 3, 0, 0], m_size = 3, m_capacity = 6\<rparr>, 1)"
    by code_simp
  have insw: "Insert 0 (Own_slot 2) ?w =
               Inr (\<lparr>m_storage = [2, 1, 2, 3], m_size = 4, m_capacity = 4\<rparr>, 0)"
    by code_simp
  have erw: "Erase 0 \<lparr>m_storage = [2, 1, 2, 3 :: int], m_size = 4, m_capacity = 4\<rparr> =
     Inr (\<lparr>m_storage = [1, 2, 3, 3], m_size = 3, m_capacity = 4\<rparr>, 0)"
    by code_simp
  show ?thesis
    using Insert_Erase_round_trip [OF v d rv] Insert_Erase_round_trip [OF w dw rw] v w
    by (simp add: ins er insw erw)
qed

subsection \<open>Resize\<close>

text \<open>
  For every well-formed vector, \<^verbatim>\<open>Resize(newSize)\<close> behaves by cases. If
  \<open>newSize \<le> size\<close> it only sets the size; capacity and block are unchanged. If
  \<open>size < newSize \<le> capacity\<close> it fills the slots \<open>[size, newSize)\<close> with the default
  value in place, leaves every other slot and the capacity as they are, and sets the
  size. If \<open>newSize > capacity\<close>, let \<open>c0\<close> be 1 if the capacity was 0 and the capacity
  otherwise, and let \<open>c0 * 2 ^ k\<close> be the first of \<open>c0, 2 c0, 4 c0, ...\<close> that is at least
  \<open>newSize\<close>; where \<open>c0 * 2 ^ k < 2 ^ 64\<close>, so that the doubling does not wrap around, the
  call returns with that capacity, the live elements moved over in order, every slot
  after them up to the new capacity filled with the default value, and the size set to
  \<open>newSize\<close>, or raises the allocation error when no block of that many slots exists
  (\<open>c0 * 2 ^ k > max_elems\<close>).
\<close>

lemma Resize_without_wrap:
  assumes "valid v"
  shows "(new_size \<le> m_size v \<longrightarrow>
            Resize new_size v = Some (Inr (v\<lparr>m_size := new_size\<rparr>))) \<and>
         (m_size v < new_size \<and> new_size \<le> m_capacity v \<longrightarrow>
            Resize new_size v =
              Some (Inr (v\<lparr>m_storage := elements v
                                   @ replicate (unat new_size - unat (m_size v)) 0
                                   @ drop (unat new_size) (m_storage v),
                               m_size := new_size\<rparr>))) \<and>
         (m_capacity v < new_size \<and>
          unat new_size \<le> unat (if m_capacity v = 0 then 1 else m_capacity v) * 2 ^ k \<and>
          (\<forall>j<k. unat (if m_capacity v = 0 then 1 else m_capacity v) * 2 ^ j < unat new_size) \<and>
          unat (if m_capacity v = 0 then 1 else m_capacity v) * 2 ^ k < 2 ^ 64 \<longrightarrow>
            unat ((if m_capacity v = 0 then 1 else m_capacity v) * 2 ^ k) =
              unat (if m_capacity v = 0 then 1 else m_capacity v) * 2 ^ k \<and>
            Resize new_size v =
              (if (if m_capacity v = 0 then 1 else m_capacity v) * 2 ^ k \<le> max_elems
               then Some (Inr \<lparr>m_storage = elements v
                            @ replicate (unat (if m_capacity v = 0 then 1 else m_capacity v) * 2 ^ k
                                         - unat (m_size v)) 0,
                          m_size = new_size,
                          m_capacity = (if m_capacity v = 0 then 1 else m_capacity v) * 2 ^ k\<rparr>)
               else Some (Inl AllocError)))"
proof (intro conjI impI)
  assume "new_size \<le> m_size v"
  with assms show "Resize new_size v = Some (Inr (v\<lparr>m_size := new_size\<rparr>))"
    by (rule Resize_shrink)
next
  assume "m_size v < new_size \<and> new_size \<le> m_capacity v"
  then have "m_size v < new_size" "new_size \<le> m_capacity v" by simp_all
  with assms show "Resize new_size v =
              Some (Inr (v\<lparr>m_storage := elements v
                                   @ replicate (unat new_size - unat (m_size v)) 0
                                   @ drop (unat new_size) (m_storage v),
                               m_size := new_size\<rparr>))"
    by (rule Resize_in_place)
next
  let ?c0 = "if m_capacity v = 0 then 1 else m_capacity v"
  assume h: "m_capacity v < new_size \<and> unat new_size \<le> unat ?c0 * 2 ^ k \<and>
          (\<forall>j<k. unat ?c0 * 2 ^ j < unat new_size) \<and> unat ?c0 * 2 ^ k < 2 ^ 64"
  then have gt: "m_capacity v < new_size" and reach: "unat new_size \<le> unat ?c0 * 2 ^ k"
    and least: "\<forall>j<k. unat ?c0 * 2 ^ j < unat new_size"
    and small: "unat ?c0 * 2 ^ k < 2 ^ 64" by simp_all
  show u: "unat (?c0 * 2 ^ k) = unat ?c0 * 2 ^ k"
    using grow_capacity_doubling [OF small reach least] by simp
  show "Resize new_size v =
          (if ?c0 * 2 ^ k \<le> max_elems
           then Some (Inr \<lparr>m_storage = elements v @ replicate (unat ?c0 * 2 ^ k - unat (m_size v)) 0,
                          m_size = new_size, m_capacity = ?c0 * 2 ^ k\<rparr>)
           else Some (Inl AllocError))"
  proof (cases "?c0 * 2 ^ k \<le> max_elems")
    case True
    then have fits: "unat ?c0 * 2 ^ k \<le> unat max_elems"
      using u by (simp add: word_le_nat_alt)
    show ?thesis
      using True Resize_grow [OF assms gt refl fits reach least] by simp
  next
    case False
    then have big: "unat max_elems < unat ?c0 * 2 ^ k"
      using u by (simp add: word_le_nat_alt)
    show ?thesis
      using False Resize_grow_alloc_fails [OF gt refl big small reach least] by simp
  qed
qed

lemma Resize_without_wrap_example:
  "valid \<lparr>m_storage = [1, 2, 3, 7 :: int], m_size = 3, m_capacity = 4\<rparr> \<and>
   Resize 2 \<lparr>m_storage = [1, 2, 3, 7 :: int], m_size = 3, m_capacity = 4\<rparr> =
     Some (Inr \<lparr>m_storage = [1, 2, 3, 7], m_size = 2, m_capacity = 4\<rparr>) \<and>
   Resize 4 \<lparr>m_storage = [1, 2, 3, 7 :: int], m_size = 3, m_capacity = 4\<rparr> =
     Some (Inr \<lparr>m_storage = [1, 2, 3, 0], m_size = 4, m_capacity = 4\<rparr>) \<and>
   Resize 9 \<lparr>m_storage = [1, 2, 3, 7 :: int], m_size = 3, m_capacity = 4\<rparr> =
     Some (Inr \<lparr>m_storage = [1, 2, 3, 0, 0, 0, 0, 0, 0, 0, 0, 0, 0, 0, 0, 0],
                 m_size = 9, m_capacity = 16\<rparr>) \<and>
   valid (SimpleVector_default :: int SimpleVector) \<and>
   Resize 0x8000000000000000 (SimpleVector_default :: int SimpleVector) = Some (Inl AllocError)"
proof -
  let ?v = "\<lparr>m_storage = [1, 2, 3, 7 :: int], m_size = 3, m_capacity = 4\<rparr>"
  let ?d = "SimpleVector_default :: int SimpleVector"
  have v: "valid ?v" by (simp add: valid_def max_elems_def)
  have d: "valid ?d" by (rule valid_default)
  have e: "elements ?v = [1, 2, 3]" by code_simp
  have r: "replicate 13 (0 :: int) = [0, 0, 0, 0, 0, 0, 0, 0, 0, 0, 0, 0, 0]" by code_simp
  have least: "\<forall>j<2. unat (4 :: size_t) * 2 ^ j < unat (9 :: size_t)"
  proof (intro allI impI)
    fix j :: nat
    assume "j < 2"
    then consider "j = 0" | "j = 1" by arith
    then show "unat (4 :: size_t) * 2 ^ j < unat (9 :: size_t)"
      by cases simp_all
  qed
  have c0: "(if m_capacity ?d = 0 then 1 else m_capacity ?d) = 1"
    by (simp add: SimpleVector_default_def)
  have n: "unat (0x8000000000000000 :: size_t) = 2 ^ 63" by simp
  have "(2 :: nat) ^ j < 2 ^ 63" if "j < 63" for j
    using that by (rule power_strict_increasing) simp
  then have least_d: "\<forall>j<63. unat (1 :: size_t) * 2 ^ j < unat (0x8000000000000000 :: size_t)"
    unfolding n by simp
  have p: "(2 :: size_t) ^ 63 = 0x8000000000000000" by simp
  have big: "Resize 0x8000000000000000 ?d = Some (Inl AllocError)"
    using Resize_without_wrap [OF d, of "0x8000000000000000" 63] least_d
    by (simp add: c0 p max_elems_def SimpleVector_default_def)
  show ?thesis
    using Resize_without_wrap [OF v, of 2 0] Resize_without_wrap [OF v, of 4 0] Resize_without_wrap [OF v, of 9 2] v d
      least big
    by (simp add: e r max_elems_def)
qed

text \<open>
  C8. For every vector, \<^verbatim>\<open>Resize(newSize)\<close> with \<open>newSize > capacity\<close> should double the
  capacity until it is at least \<open>newSize\<close> and set the size, or fail with the allocation
  error as every other allocating path does. On the empty vector,
  \<^verbatim>\<open>Resize(0x8000000000000001)\<close> doubles 1 up to \<open>2 ^ 63\<close>, which is still smaller, then
  to \<open>2 ^ 64 = 0\<close> in \<^verbatim>\<open>size_t\<close>, and stays at 0: the call never returns. The request
  one smaller, \<^verbatim>\<open>Resize(0x8000000000000000)\<close>, and the same request to \<^verbatim>\<open>Reserve\<close> and
  to the sized constructor all end with the allocation error.
\<close>

theorem Resize_overflow_never_returns:
  "Resize 0x8000000000000001 (SimpleVector_default :: int SimpleVector) = None \<and>
   Resize 0x8000000000000000 (SimpleVector_default :: int SimpleVector) = Some (Inl AllocError) \<and>
   Reserve 0x8000000000000001 (SimpleVector_default :: int SimpleVector) = Inl AllocError \<and>
   (SimpleVector_sized 0x8000000000000001 :: error + int SimpleVector) = Inl AllocError"
proof -
  let ?d = "SimpleVector_default :: int SimpleVector"
  have "Resize 0x8000000000000001 ?d = None"
    by (simp add: Resize_def SimpleVector_default_def grow_capacity_overflow)
  moreover have "Resize 0x8000000000000000 ?d = Some (Inl AllocError)"
    using Resize_without_wrap_example by simp
  moreover have "Reserve 0x8000000000000001 ?d = Inl AllocError"
    by (simp add: Reserve_def SimpleVector_default_def ArrayPtr_new_def max_elems_def)
  moreover have "(SimpleVector_sized 0x8000000000000001 :: error + int SimpleVector) = Inl AllocError"
    by (simp add: SimpleVector_sized_def SimpleVector_fill_def ArrayPtr_new_def max_elems_def)
  ultimately show ?thesis by (intro conjI)
qed

subsection \<open>Copy construction\<close>

text \<open>
  C9. For every vector \<open>v\<close> whose live elements lie in its block, copy-constructing
  \<open>w\<close> from \<open>v\<close> yields size \<open>size v\<close>, capacity \<open>size v\<close> (not the capacity of \<open>v\<close>), and
  the element sequence of \<open>v\<close>; the block of \<open>w\<close> is exactly that sequence. The
  constructor takes \<open>v\<close> by const reference and returns only \<open>w\<close>: \<open>v\<close> is unchanged. For
  a well-formed \<open>v\<close> the allocation cannot fail.
\<close>

theorem SimpleVector_copy_spec:
  assumes "unat (m_size v) \<le> length (m_storage v)"
  shows "(case SimpleVector_copy v of
            Inl e \<Rightarrow> e = AllocError \<and> max_elems < m_size v
          | Inr w \<Rightarrow> m_size w = m_size v \<and> m_capacity w = m_size v \<and>
                     elements w = elements v \<and> m_storage w = elements v \<and> valid w) \<and>
         (valid v \<longrightarrow> (\<exists>w. SimpleVector_copy v = Inr w))"
proof -
  let ?n = "unat (m_size v)"
  let ?r = "std_move (m_storage v) 0 ?n (replicate ?n 0) 0"
  have "take ?n ?r = take ?n (m_storage v)"
    using assms by (intro take_std_move_prefix) simp_all
  moreover have len: "length ?r = ?n" by (simp add: length_std_move)
  ultimately have r: "?r = elements v" by (simp add: elements_def)
  have len_e: "length (elements v) = ?n" using assms by (simp add: elements_def)
  have "valid v \<Longrightarrow> \<not> max_elems < m_size v" using valid_size_max [of v] by simp
  then show ?thesis
    using assms r len_e
    by (auto simp add: SimpleVector_copy_def ArrayPtr_new_def std_copy_def elements_def valid_def
        not_less)
qed

theorem SimpleVector_copy_spec_witness:
  "SimpleVector_copy \<lparr>m_storage = [1, 2, 3, 7 :: int], m_size = 3, m_capacity = 4\<rparr> =
     Inr \<lparr>m_storage = [1, 2, 3], m_size = 3, m_capacity = 3\<rparr> \<and>
   elements \<lparr>m_storage = [1, 2, 3 :: int], m_size = 3, m_capacity = 3\<rparr> =
     elements \<lparr>m_storage = [1, 2, 3, 7 :: int], m_size = 3, m_capacity = 4\<rparr>"
proof -
  let ?v = "\<lparr>m_storage = [1, 2, 3, 7 :: int], m_size = 3, m_capacity = 4\<rparr>"
  have h: "unat (m_size ?v) \<le> length (m_storage ?v)" by simp
  have c: "SimpleVector_copy ?v = Inr \<lparr>m_storage = [1, 2, 3], m_size = 3, m_capacity = 3\<rparr>"
    by code_simp
  show ?thesis using SimpleVector_copy_spec [OF h] by (simp add: c elements_def)
qed

subsection \<open>Self-assignment\<close>

text \<open>
  C10. Assigning a vector to itself, by copy or by move, leaves the store as it is: the
  size, the capacity and the elements of the vector are unchanged.
\<close>

theorem self_assignment_unchanged:
  "copy_assign a a s = Inr s \<and> move_assign a a s = s"
  by (simp add: copy_assign_def move_assign_def)

end
